theory Spec2Isabelle
  imports Complex_Main "HOL-Library.Word"
begin

unbundle bit_operations_syntax

chapter \<open>Definitions: the embedded program\<close>

text \<open>
  Conventions of the embedding.
  \<^item> JavaScript numbers that hold timestamps, counters and counts are integers in every
    path modelled here; they are \<^typ>\<open>int\<close> (milliseconds since the epoch for times).
    Division written \<open>/\<close> in the source is division on \<^typ>\<open>real\<close>, followed by the
    source's \<open>Math.floor\<close> or \<open>Math.ceil\<close>.
  \<^item> The 32-bit integers that JavaScript's bit operators compute on are \<^typ>\<open>32 word\<close>.
  \<^item> Strings that pass through \<open>toUpperCase\<close>, a regular expression or \<open>indexOf\<close> are
    sequences of UTF-16 code units (\<^typ>\<open>16 word\<close>), as in JavaScript; \<open>toUpperCase\<close>
    itself belongs to the runtime and is a parameter. Identifiers, paths and keys, which
    the code only compares and concatenates, are \<^typ>\<open>string\<close>.
  \<^item> The database tables reached through the Supabase client are fields of a state
    record that every operation takes and returns; queries are assumed to succeed.
  \<^item> \<open>Date.now()\<close> is a parameter \<open>now\<close> of each operation that reads the clock.
\<close>

section \<open>Account lockout tracker\<close>

text \<open>Table \<open>account_lockouts\<close>, keyed by \<open>user_id\<close>.\<close>

record lockout_row =
  failed_attempts :: int
  locked_until :: "int option"
  ip_address :: string
  last_attempt :: int

text \<open>Rows of \<open>user_sessions\<close>.\<close>

record session_row =
  session_id :: nat
  user_id :: string
  is_active :: bool
  last_activity :: int
  terminated_at :: "int option"
  user_agent :: string

text \<open>The arguments of one \<open>log_security_event\<close> call.\<close>

record security_event =
  p_user_id :: string
  p_event_type :: string
  p_severity :: string
  p_failed_attempts :: int
  p_ip_address :: string

record auth_db =
  account_lockouts :: "string \<rightharpoonup> lockout_row"
  user_sessions :: "session_row list"
  security_log :: "security_event list"

text \<open>\<open>LOCKOUT_CONFIG\<close> and \<open>SESSION_CONFIG\<close>.\<close>

definition maxFailedAttempts :: int where
  "maxFailedAttempts = 5"

definition lockoutDuration :: int where
  "lockoutDuration = 15 * 60 * 1000"

definition maxConcurrentSessions :: nat where
  "maxConcurrentSessions = 5"

text \<open>
  \<open>new Date(v).getTime()\<close> for a nullable timestamp column: \<open>new Date(null)\<close> is the
  epoch, so its time value is 0.
\<close>

definition date_getTime :: "int option \<Rightarrow> int" where
  "date_getTime v = (case v of None \<Rightarrow> 0 | Some ms \<Rightarrow> ms)"

record lockout_status =
  locked :: bool
  remainingTime :: int
  failedAttempts :: int

definition checkAccountLockout :: "string \<Rightarrow> int \<Rightarrow> auth_db \<Rightarrow> lockout_status \<times> auth_db" where
  "checkAccountLockout userId now db =
     (case account_lockouts db userId of
        None \<Rightarrow> (\<lparr>locked = False, remainingTime = 0, failedAttempts = 0\<rparr>, db)
      | Some lockoutData \<Rightarrow>
          (let lockoutExpiry = date_getTime (locked_until lockoutData) in
           if now < lockoutExpiry
           then (\<lparr>locked = True, remainingTime = lockoutExpiry - now,
                  failedAttempts = failed_attempts lockoutData\<rparr>, db)
           else (\<lparr>locked = False, remainingTime = 0, failedAttempts = 0\<rparr>,
                 db\<lparr>account_lockouts := (account_lockouts db)(userId := None)\<rparr>)))"

text \<open>\<open>existing?.failed_attempts || 0\<close>: a missing row and a zero count both give 0.\<close>

definition existing_failed_attempts :: "lockout_row option \<Rightarrow> int" where
  "existing_failed_attempts existing =
     (case existing of None \<Rightarrow> 0 | Some r \<Rightarrow> (if failed_attempts r = 0 then 0 else failed_attempts r))"

definition recordFailedAttempt :: "string \<Rightarrow> string \<Rightarrow> int \<Rightarrow> auth_db \<Rightarrow> auth_db" where
  "recordFailedAttempt userId ipAddress now db =
     (let failedAttempts = existing_failed_attempts (account_lockouts db userId) + 1;
          lockedUntil = (if failedAttempts \<ge> maxFailedAttempts
                         then Some (now + lockoutDuration) else None)
      in db\<lparr>account_lockouts := (account_lockouts db)(userId \<mapsto>
               \<lparr>failed_attempts = failedAttempts, locked_until = lockedUntil,
                ip_address = ipAddress, last_attempt = now\<rparr>),
             security_log := security_log db @
               [\<lparr>p_user_id = userId, p_event_type = ''failed_login'', p_severity = ''medium'',
                 p_failed_attempts = failedAttempts, p_ip_address = ipAddress\<rparr>]\<rparr>)"

definition clearFailedAttempts :: "string \<Rightarrow> auth_db \<Rightarrow> auth_db" where
  "clearFailedAttempts userId db = db\<lparr>account_lockouts := (account_lockouts db)(userId := None)\<rparr>"

text \<open>A database holding one lockout row, for concrete evaluations.\<close>

definition db_with_lockout :: "string \<Rightarrow> lockout_row \<Rightarrow> auth_db" where
  "db_with_lockout userId r =
     \<lparr>account_lockouts = Map.empty(userId \<mapsto> r), user_sessions = [], security_log = []\<rparr>"

section \<open>Rate limiter\<close>

text \<open>
  \<open>rateLimitStore\<close>: a module-level \<open>Map\<close> from the key \<open>clientIp:endpoint\<close> to a
  counter. Both \<open>security.ts\<close> and \<open>advanced-security.ts\<close> declare one and the same
  \<open>checkRateLimit\<close>; the second also reports \<open>remaining\<close>.
\<close>

record rate_entry =
  count :: int
  resetTime :: int

type_synonym rate_limit_store = "string \<rightharpoonup> rate_entry"

record rate_limit_opts =
  windowMs :: "int option"
  maxRequests :: "int option"

record SecurityConfig =
  requireAuth :: bool
  requireSubscription :: bool
  require2FA :: bool
  rateLimit :: "rate_limit_opts option"
  validateInput :: bool
  logSecurityEvents :: bool

text \<open>\<open>RATE_LIMIT_CONFIG\<close>.\<close>

definition RATE_LIMIT_windowMs :: int where
  "RATE_LIMIT_windowMs = 60 * 1000"

definition RATE_LIMIT_maxRequests :: int where
  "RATE_LIMIT_maxRequests = 100"

text \<open>The configuration the constructors build when no option is given.\<close>

definition default_config :: SecurityConfig where
  "default_config =
     \<lparr>requireAuth = True, requireSubscription = False, require2FA = False,
      rateLimit = Some \<lparr>windowMs = Some RATE_LIMIT_windowMs,
                         maxRequests = Some RATE_LIMIT_maxRequests\<rparr>,
      validateInput = True, logSecurityEvents = True\<rparr>"

text \<open>\<open>v || d\<close> on an optional number: undefined and 0 are falsy.\<close>

definition js_or :: "int option \<Rightarrow> int \<Rightarrow> int" where
  "js_or v d = (case v of None \<Rightarrow> d | Some n \<Rightarrow> (if n = 0 then d else n))"

text \<open>\<open>this.config.rateLimit?.windowMs || RATE_LIMIT_CONFIG.windowMs\<close>, and the same for
  \<open>maxRequests\<close>.\<close>

definition config_windowMs :: "SecurityConfig \<Rightarrow> int" where
  "config_windowMs config =
     js_or (case rateLimit config of None \<Rightarrow> None | Some rl \<Rightarrow> windowMs rl) RATE_LIMIT_windowMs"

definition config_maxRequests :: "SecurityConfig \<Rightarrow> int" where
  "config_maxRequests config =
     js_or (case rateLimit config of None \<Rightarrow> None | Some rl \<Rightarrow> maxRequests rl) RATE_LIMIT_maxRequests"

record rate_limit_result =
  allowed :: bool
  retryAfter :: "int option"
  remaining :: "int option"

definition rate_limit_key :: "string \<Rightarrow> string \<Rightarrow> string" where
  "rate_limit_key clientIp endpoint = clientIp @ '':'' @ endpoint"

text \<open>\<open>AdvancedSecurityMiddleware.checkRateLimit\<close>.\<close>

definition checkRateLimit ::
  "SecurityConfig \<Rightarrow> string \<Rightarrow> string \<Rightarrow> int \<Rightarrow> rate_limit_store
     \<Rightarrow> rate_limit_result \<times> rate_limit_store" where
  "checkRateLimit config clientIp endpoint now store =
     (let key = rate_limit_key clientIp endpoint;
          windowMs = config_windowMs config;
          maxRequests = config_maxRequests config;
          first = (\<lparr>allowed = True, retryAfter = None, remaining = Some (maxRequests - 1)\<rparr>,
                   store(key \<mapsto> \<lparr>count = 1, resetTime = now + windowMs\<rparr>))
      in case store key of
           None \<Rightarrow> first
         | Some current \<Rightarrow>
             if now > resetTime current then first
             else if count current \<ge> maxRequests
             then (\<lparr>allowed = False,
                    retryAfter = Some \<lceil>real_of_int (resetTime current - now) / 1000\<rceil>,
                    remaining = Some 0\<rparr>, store)
             else (\<lparr>allowed = True, retryAfter = None,
                    remaining = Some (maxRequests - (count current + 1))\<rparr>,
                   store(key \<mapsto> current\<lparr>count := count current + 1\<rparr>)))"

text \<open>\<open>SecurityMiddleware.checkRateLimit\<close> of \<open>security.ts\<close>: the same steps, with no
  \<open>remaining\<close> in its result.\<close>

definition checkRateLimit_basic ::
  "SecurityConfig \<Rightarrow> string \<Rightarrow> string \<Rightarrow> int \<Rightarrow> rate_limit_store
     \<Rightarrow> (bool \<times> int option) \<times> rate_limit_store" where
  "checkRateLimit_basic config clientIp endpoint now store =
     (let key = rate_limit_key clientIp endpoint;
          windowMs = config_windowMs config;
          maxRequests = config_maxRequests config;
          first = ((True, None), store(key \<mapsto> \<lparr>count = 1, resetTime = now + windowMs\<rparr>))
      in case store key of
           None \<Rightarrow> first
         | Some current \<Rightarrow>
             if now > resetTime current then first
             else if count current \<ge> maxRequests
             then ((False, Some \<lceil>real_of_int (resetTime current - now) / 1000\<rceil>), store)
             else ((True, None), store(key \<mapsto> current\<lparr>count := count current + 1\<rparr>)))"

text \<open>A client calling at the times of a list, one call after the other.\<close>

fun rateLimitCalls ::
  "SecurityConfig \<Rightarrow> string \<Rightarrow> string \<Rightarrow> int list \<Rightarrow> rate_limit_store
     \<Rightarrow> rate_limit_result list \<times> rate_limit_store" where
  "rateLimitCalls config clientIp endpoint [] store = ([], store)"
| "rateLimitCalls config clientIp endpoint (now # later) store =
     (case checkRateLimit config clientIp endpoint now store of
        (r, store') \<Rightarrow>
          (case rateLimitCalls config clientIp endpoint later store' of
             (rs, store'') \<Rightarrow> (r # rs, store'')))"

definition limit_config :: "int \<Rightarrow> int \<Rightarrow> SecurityConfig" where
  "limit_config w m = default_config\<lparr>rateLimit := Some \<lparr>windowMs = Some w, maxRequests = Some m\<rparr>\<rparr>"


text \<open>What the call number \<open>i\<close> (from 0), made at time \<open>t\<close>, receives in a window that
  started with count \<open>c\<close> and resets at \<open>R\<close>.\<close>

definition window_result :: "SecurityConfig \<Rightarrow> int \<Rightarrow> int \<Rightarrow> nat \<times> int \<Rightarrow> rate_limit_result" where
  "window_result cfg c R = (\<lambda>(i, t).
     if c + int i < config_maxRequests cfg
     then \<lparr>allowed = True, retryAfter = None,
            remaining = Some (config_maxRequests cfg - (c + int i + 1))\<rparr>
     else \<lparr>allowed = False, retryAfter = Some \<lceil>real_of_int (R - t) / 1000\<rceil>,
            remaining = Some 0\<rparr>)"


section \<open>Strings\<close>

text \<open>
  A JavaScript string is a sequence of UTF-16 code units; \<open>length\<close>, indexing, \<open>===\<close> and
  regular expressions without the \<open>u\<close> flag work on code units. The text constants of the
  source are ASCII; they are written as HOL strings and converted by \<open>js\<close>.
\<close>

type_synonym code_unit = "16 word"

type_synonym jsstring = "code_unit list"

definition js_char :: "char \<Rightarrow> code_unit" where
  "js_char c = of_nat (of_char c)"

definition js :: "string \<Rightarrow> jsstring" where
  "js s = map js_char s"

text \<open>
  \<open>String.prototype.toUpperCase\<close> is the runtime's, not the repository's. It applies the
  Unicode case mappings, under which a character can become several (sharp s becomes
  \<open>SS\<close>) and characters outside ASCII can become ASCII letters. The functions that call it
  take it as the parameter \<open>upper\<close>, and each property names the facts about it that it
  rests on.
\<close>

type_synonym upper_fn = "jsstring \<Rightarrow> jsstring"

text \<open>
  For concrete evaluations: the value of \<open>toUpperCase\<close> on strings made of ASCII
  characters, sharp s (U+00DF, upper case \<open>SS\<close>) and the ligature ff (U+FB00, upper case
  \<open>FF\<close>). It is evaluated on such strings only.
\<close>

definition toUpperCase_sample_unit :: "code_unit \<Rightarrow> jsstring" where
  "toUpperCase_sample_unit c =
     (if 0x61 \<le> c \<and> c \<le> 0x7A then [c - 0x20]
      else if c = 0xDF then [0x53, 0x53]
      else if c = 0xFB00 then [0x46, 0x46]
      else [c])"

definition toUpperCase_sample :: upper_fn where
  "toUpperCase_sample s = concat (map toUpperCase_sample_unit s)"

text \<open>
  The class \<open>\s\<close> of a regular expression: the white-space and line-terminator code
  points of ECMAScript, which all are single code units.
\<close>

definition is_space :: "code_unit \<Rightarrow> bool" where
  "is_space c =
     (c \<in> set [0x09, 0x0A, 0x0B, 0x0C, 0x0D, 0x20, 0xA0, 0x1680, 0x2000, 0x2001, 0x2002, 0x2003,
               0x2004, 0x2005, 0x2006, 0x2007, 0x2008, 0x2009, 0x200A, 0x2028, 0x2029, 0x202F,
               0x205F, 0x3000, 0xFEFF])"

text \<open>\<open>s.startsWith(p)\<close>.\<close>

definition startsWith :: "string \<Rightarrow> string \<Rightarrow> bool" where
  "startsWith s p = (take (length p) s = p)"

section \<open>Backup codes\<close>

text \<open>\<open>TOTP.verifyBackupCode\<close>: \<open>replace(/\s/g, '')\<close> deletes every white-space code unit of
  the upper-cased submission; \<open>includes\<close> is list membership.\<close>

definition verifyBackupCode :: "upper_fn \<Rightarrow> jsstring \<Rightarrow> jsstring list \<Rightarrow> bool" where
  "verifyBackupCode upper providedCode storedCodes =
     (let normalizedCode = filter (\<lambda>c. \<not> is_space c) (upper providedCode)
      in normalizedCode \<in> set storedCodes)"

text \<open>The removal both callers perform after a successful match:
  \<open>backup_codes.filter(c => c !== code.toUpperCase())\<close>.\<close>

definition removeUsedCode :: "upper_fn \<Rightarrow> jsstring \<Rightarrow> jsstring list \<Rightarrow> jsstring list" where
  "removeUsedCode upper code storedCodes = filter (\<lambda>c. c \<noteq> upper code) storedCodes"

text \<open>Rows of \<open>two_factor_auth\<close>, keyed by \<open>user_id\<close>.\<close>

record two_factor_row =
  secret_key :: jsstring
  backup_codes :: "jsstring list"
  is_enabled :: bool

text \<open>The route \<open>POST /api/2fa/verify-backup\<close>. The arguments are the authenticated user (if
  any) and the \<open>code\<close> field of the body when it is a string; \<open>code.length\<close> counts code
  units.\<close>

datatype backup_response =
  Unauthorized_401 | Invalid_backup_code_400 | Not_initialized_400 | Valid_false_200 | Valid_true_200

definition verify_backup_POST ::
  "upper_fn \<Rightarrow> string option \<Rightarrow> jsstring option \<Rightarrow> (string \<rightharpoonup> two_factor_row)
     \<Rightarrow> backup_response \<times> (string \<rightharpoonup> two_factor_row)" where
  "verify_backup_POST upper user body_code tfa =
     (case user of
        None \<Rightarrow> (Unauthorized_401, tfa)
      | Some uid \<Rightarrow>
          (case body_code of
             None \<Rightarrow> (Invalid_backup_code_400, tfa)
           | Some code \<Rightarrow>
               if code = [] \<or> length code \<noteq> 8 then (Invalid_backup_code_400, tfa)
               else (case tfa uid of
                       None \<Rightarrow> (Not_initialized_400, tfa)
                     | Some twoFA \<Rightarrow>
                         if \<not> verifyBackupCode upper code (backup_codes twoFA)
                         then (Valid_false_200, tfa)
                         else (Valid_true_200,
                               tfa(uid \<mapsto> twoFA\<lparr>backup_codes :=
                                  removeUsedCode upper code (backup_codes twoFA)\<rparr>)))))"

text \<open>
  A \<open>two_factor_auth\<close> table for concrete evaluations: one account with two backup codes
  of the generated format (8 upper-case hexadecimal digits).
\<close>

definition two_codes_table :: "string \<rightharpoonup> two_factor_row" where
  "two_codes_table =
     Map.empty(''u1'' \<mapsto> \<lparr>secret_key = js ''GEZDGNBVGY3TQOJQGEZDGNBVGY3TQOJQ'',
                           backup_codes = [js ''3F9A01FF'', js ''0A1B2C3D''],
                           is_enabled = True\<rparr>)"

section \<open>Security gate\<close>

text \<open>
  What one request shows to the gate: the client address and path, and the answers of
  the collaborators the gate asks (\<open>checkAuthentication\<close>, the \<open>two_factor_auth\<close> row,
  \<open>has_active_subscription\<close>, \<open>validateInput\<close>), and the \<open>two_factor_ok\<close> cookie.
\<close>

record request_env =
  req_clientIP :: string
  req_pathname :: string
  req_user :: "string option"
  req_two_factor_enabled :: "bool option"
  req_subscription :: bool
  req_input_valid :: bool
  req_cookie_two_factor_ok :: "string option"

datatype response = Json nat string | RedirectTo string

text \<open>\<open>checkTwoFactorAuth\<close>: no row or an error count as not enabled.\<close>

definition checkTwoFactorAuth :: "request_env \<Rightarrow> bool" where
  "checkTwoFactorAuth req = (case req_two_factor_enabled req of None \<Rightarrow> False | Some e \<Rightarrow> e)"

definition checkSubscription :: "request_env \<Rightarrow> bool" where
  "checkSubscription req = (case req_user req of None \<Rightarrow> False | Some u \<Rightarrow> req_subscription req)"

text \<open>\<open>AdvancedSecurityMiddleware.handle\<close>: the response that ends the request (\<open>None\<close> lets
  it continue), the rate-limit store, and the security events logged.\<close>

definition handle ::
  "SecurityConfig \<Rightarrow> request_env \<Rightarrow> int \<Rightarrow> rate_limit_store
     \<Rightarrow> response option \<times> rate_limit_store \<times> (string \<times> string) list" where
  "handle config req now store =
     (case (case rateLimit config of
              None \<Rightarrow> (True, store)
            | Some rl \<Rightarrow>
                (case checkRateLimit config (req_clientIP req) (req_pathname req) now store of
                   (r, store') \<Rightarrow> (allowed r, store'))) of
        (rateOk, store') \<Rightarrow>
          if \<not> rateOk
          then (Some (Json 429 ''Rate limit exceeded''), store',
                [(''rate_limit_exceeded'', ''medium'')])
          else if requireAuth config \<and> req_user req = None
          then (Some (Json 401 ''Authentication required''), store',
                [(''unauthorized_access'', ''high'')])
          else if requireAuth config \<and> require2FA config \<and> \<not> checkTwoFactorAuth req
          then (Some (Json 403 ''Two-factor authentication required''), store',
                [(''2fa_required'', ''medium'')])
          else if requireSubscription config \<and> \<not> checkSubscription req
          then (Some (Json 403 ''Active subscription required''), store',
                [(''subscription_required'', ''low'')])
          else if validateInput config \<and> \<not> req_input_valid req
          then (Some (Json 400 ''Invalid input''), store', [(''invalid_input'', ''medium'')])
          else (None, store',
                if logSecurityEvents config then [(''successful_access'', ''low'')] else []))"

text \<open>The block of \<open>middleware\<close> commented "2FA enforcement for sensitive routes"; \<open>None\<close>
  lets the request go on to the next block.\<close>

definition middleware_two_factor :: "request_env \<Rightarrow> response option" where
  "middleware_two_factor req =
     (if startsWith (req_pathname req) ''/vault/''
         \<or> startsWith (req_pathname req) ''/account''
         \<or> startsWith (req_pathname req) ''/settings''
      then (case req_user req of
              None \<Rightarrow> None
            | Some user \<Rightarrow>
                if checkTwoFactorAuth req
                then (if req_cookie_two_factor_ok req = Some ''1'' then None
                      else Some (RedirectTo ''/two-factor-auth''))
                else None)
      else None)"


text \<open>A configuration that demands 2FA, and a request of an authenticated account whose
  TOTP credential is enabled and that carries no \<open>two_factor_ok\<close> cookie, for concrete
  evaluations.\<close>

definition gate_2fa_config :: SecurityConfig where
  "gate_2fa_config = default_config\<lparr>require2FA := True\<rparr>"

definition enrolled_request :: request_env where
  "enrolled_request =
     \<lparr>req_clientIP = ''203.0.113.9'', req_pathname = ''/vault/items'', req_user = Some ''u1'',
      req_two_factor_enabled = Some True, req_subscription = True, req_input_valid = True,
      req_cookie_two_factor_ok = None\<rparr>"


section \<open>Session registry\<close>

definition requireReauthAfter :: int where
  "requireReauthAfter = 7 * 24 * 60 * 60 * 1000"

text \<open>The filter \<open>.eq('user_id', userId).eq('is_active', true)\<close>.\<close>

definition active_of :: "string \<Rightarrow> session_row \<Rightarrow> bool" where
  "active_of userId s = (user_id s = userId \<and> is_active s)"

definition getActiveSessionCount :: "string \<Rightarrow> auth_db \<Rightarrow> nat" where
  "getActiveSessionCount userId db = length (filter (active_of userId) (user_sessions db))"

text \<open>
  \<open>terminateOldestSessions\<close>. The query orders the user's active sessions by
  \<open>last_activity\<close>, latest first; rows with equal \<open>last_activity\<close> come in an order the
  database chooses, here that of a stable sort. \<open>slice(keepCount)\<close> is \<open>drop keepCount\<close>, and
  the update touches every row whose \<open>id\<close> is among those of the slice.
\<close>

definition terminateOldestSessions :: "string \<Rightarrow> nat \<Rightarrow> int \<Rightarrow> auth_db \<Rightarrow> auth_db" where
  "terminateOldestSessions userId keepCount now db =
     (let sessions = rev (sort_key last_activity (filter (active_of userId) (user_sessions db)))
      in if length sessions > keepCount
         then (let sessionsToTerminate = drop keepCount sessions;
                   sessionIds = map session_id sessionsToTerminate
               in db\<lparr>user_sessions :=
                    map (\<lambda>s. if session_id s \<in> set sessionIds
                              then s\<lparr>is_active := False, terminated_at := Some now\<rparr> else s)
                        (user_sessions db)\<rparr>)
         else db)"

definition updateLastActivity :: "string \<Rightarrow> string \<Rightarrow> int \<Rightarrow> auth_db \<Rightarrow> auth_db" where
  "updateLastActivity userId userAgent now db =
     db\<lparr>user_sessions :=
          map (\<lambda>s. if active_of userId s then s\<lparr>last_activity := now, user_agent := userAgent\<rparr> else s)
              (user_sessions db)\<rparr>"

text \<open>
  \<open>checkAuth\<close>. Its first argument is what \<open>supabase.auth.getUser()\<close> gave: no user (or an
  error), or the user's id and \<open>last_sign_in_at\<close>. The message of a locked account is
  kept as its number of minutes.
\<close>

record auth_result =
  authenticated :: bool
  sessionValid :: bool
  requiresReauth :: bool
  locked_minutes :: "int option"

definition checkAuth ::
  "(string \<times> int option) option \<Rightarrow> string option \<Rightarrow> int \<Rightarrow> auth_db \<Rightarrow> auth_result \<times> auth_db" where
  "checkAuth getUser userAgentHeader now db =
     (case getUser of
        None \<Rightarrow> (\<lparr>authenticated = False, sessionValid = False, requiresReauth = False,
                  locked_minutes = None\<rparr>, db)
      | Some (uid, last_sign_in_at) \<Rightarrow>
          (let sessionAge = now - date_getTime last_sign_in_at;
               requiresReauth = (sessionAge > requireReauthAfter)
           in case checkAccountLockout uid now db of
                (lockoutStatus, db1) \<Rightarrow>
                  if locked lockoutStatus
                  then (\<lparr>authenticated = False, sessionValid = False, requiresReauth = False,
                         locked_minutes = Some \<lceil>real_of_int (remainingTime lockoutStatus) / 60000\<rceil>\<rparr>,
                        db1)
                  else (let sessionCount = getActiveSessionCount uid db1;
                            db2 = (if sessionCount > maxConcurrentSessions
                                   then terminateOldestSessions uid maxConcurrentSessions now db1
                                   else db1);
                            db3 = updateLastActivity uid
                                    (case userAgentHeader of None \<Rightarrow> [] | Some ua \<Rightarrow> ua) now db2
                        in (\<lparr>authenticated = True, sessionValid = True,
                              requiresReauth = requiresReauth, locked_minutes = None\<rparr>, db3))))"

text \<open>The ids of a user's active sessions.\<close>

definition active_ids :: "string \<Rightarrow> auth_db \<Rightarrow> nat set" where
  "active_ids userId db = session_id ` set (filter (active_of userId) (user_sessions db))"

text \<open>
  Contents of the two tables for concrete evaluations: six active sessions of one account
  and one of another; and the same sessions with the first account locked until 900000.
  No code of the repository inserts into \<open>user_sessions\<close>, so nothing bounds the number of
  active rows that \<open>checkAuth\<close> finds there.
\<close>

definition mk_session :: "nat \<Rightarrow> string \<Rightarrow> int \<Rightarrow> session_row" where
  "mk_session i uid t =
     \<lparr>session_id = i, user_id = uid, is_active = True, last_activity = t,
      terminated_at = None, user_agent = ''ua''\<rparr>"

definition six_sessions_db :: auth_db where
  "six_sessions_db =
     \<lparr>account_lockouts = Map.empty,
      user_sessions = [mk_session 1 ''u1'' 300, mk_session 2 ''u1'' 100, mk_session 3 ''u1'' 500,
                       mk_session 4 ''u1'' 200, mk_session 5 ''u1'' 400, mk_session 7 ''u2'' 50,
                       mk_session 6 ''u1'' 600],
      security_log = []\<rparr>"

definition six_sessions_locked_db :: auth_db where
  "six_sessions_locked_db =
     six_sessions_db\<lparr>account_lockouts := Map.empty(''u1'' \<mapsto>
        \<lparr>failed_attempts = 5, locked_until = Some 900000, ip_address = ''10.0.0.7'',
         last_attempt = 0\<rparr>)\<rparr>"


section \<open>Base32 codec\<close>

type_synonym byte = "8 word"

definition BASE32_ALPHABET :: jsstring where
  "BASE32_ALPHABET = js ''ABCDEFGHIJKLMNOPQRSTUVWXYZ234567''"

text \<open>
  JavaScript's \<open><<\<close> and \<open>>>>\<close> on numbers: the left operand as a 32-bit integer, the shift
  count modulo 32.
\<close>

definition js_shl :: "32 word \<Rightarrow> nat \<Rightarrow> 32 word" where
  "js_shl v n = push_bit (n mod 32) v"

definition js_shr :: "32 word \<Rightarrow> nat \<Rightarrow> 32 word" where
  "js_shr v n = drop_bit (n mod 32) v"

text \<open>The character \<open>BASE32_ALPHABET[i]\<close> for a 5-bit index.\<close>

definition alphabet_at :: "32 word \<Rightarrow> code_unit" where
  "alphabet_at i = BASE32_ALPHABET ! unat i"

text \<open>The inner \<open>while (bits >= 5)\<close> loop of \<open>base32Encode\<close>, on the triple \<open>(bits, value, output)\<close>.\<close>

function encode_while :: "nat \<times> 32 word \<times> jsstring \<Rightarrow> nat \<times> 32 word \<times> jsstring" where
  "encode_while (bits, v, output) =
     (if bits \<ge> 5
      then encode_while (bits - 5, v, output @ [alphabet_at (js_shr v (bits - 5) AND 31)])
      else (bits, v, output))"
  by pat_completeness auto
termination
  by (relation "measure fst") auto

declare encode_while.simps [simp del]

text \<open>One round of the \<open>for\<close> loop of \<open>base32Encode\<close>.\<close>

definition encode_step :: "byte \<Rightarrow> nat \<times> 32 word \<times> jsstring \<Rightarrow> nat \<times> 32 word \<times> jsstring" where
  "encode_step b = (\<lambda>(bits, v, output). encode_while (bits + 8, js_shl v 8 OR ucast b, output))"

definition base32Encode :: "byte list \<Rightarrow> jsstring" where
  "base32Encode buffer =
     (case fold encode_step buffer (0, 0, []) of
        (bits, v, output) \<Rightarrow>
          if bits > 0 then output @ [alphabet_at (js_shl v (5 - bits) AND 31)] else output)"

text \<open>\<open>BASE32_ALPHABET.indexOf(c)\<close> for a string \<open>c\<close> of one code unit; \<open>None\<close> is the
  source's \<open>-1\<close>.\<close>

fun indexOf :: "jsstring \<Rightarrow> code_unit \<Rightarrow> nat option" where
  "indexOf [] c = None"
| "indexOf (x # xs) c = (if x = c then Some 0 else map_option Suc (indexOf xs c))"

text \<open>\<open>replace(/=+$/g, '')\<close>: the run of \<open>=\<close> at the end of the string is removed.\<close>

definition strip_padding :: "jsstring \<Rightarrow> jsstring" where
  "strip_padding s = rev (dropWhile (\<lambda>c. c = js_char CHR ''='') (rev s))"

text \<open>One round of the \<open>for\<close> loop of \<open>base32Decode\<close>, on the triple \<open>(bits, value, bytes)\<close>.\<close>

definition decode_step :: "code_unit \<Rightarrow> nat \<times> 32 word \<times> byte list \<Rightarrow> nat \<times> 32 word \<times> byte list" where
  "decode_step c = (\<lambda>(bits, v, bytes).
     case indexOf BASE32_ALPHABET c of
       None \<Rightarrow> (bits, v, bytes)
     | Some idx \<Rightarrow>
         (let v' = js_shl v 5 OR of_nat idx; bits' = bits + 5
          in if bits' \<ge> 8
             then (bits' - 8, v', bytes @ [ucast (js_shr v' (bits' - 8) AND 0xff)])
             else (bits', v', bytes)))"

definition base32Decode :: "upper_fn \<Rightarrow> jsstring \<Rightarrow> byte list" where
  "base32Decode upper input =
     (let cleaned = strip_padding (upper input)
      in case fold decode_step cleaned (0, 0, []) of (bits, v, bytes) \<Rightarrow> bytes)"

text \<open>For the proofs: the number a byte string denotes (big-endian), the number a string of
  alphabet characters denotes (5 bits each), and the characters of an input the decoder acts on.\<close>

definition be_val :: "byte list \<Rightarrow> int" where
  "be_val bs = foldl (\<lambda>a b. a * 256 + uint b) 0 bs"

definition idx_val :: "jsstring \<Rightarrow> int" where
  "idx_val cs = foldl (\<lambda>a c. a * 32 + int (the (indexOf BASE32_ALPHABET c))) 0 cs"

definition alphabet_chars :: "upper_fn \<Rightarrow> jsstring \<Rightarrow> jsstring" where
  "alphabet_chars upper input = filter (\<lambda>c. c \<in> set BASE32_ALPHABET) (upper input)"

section \<open>TOTP engine\<close>

text \<open>
  The keyed hash \<open>crypto.createHmac('sha1', key).update(buffer).digest()\<close> is Node's, not
  the repository's: the functions below take it as the parameter \<open>hmac\<close>, from key and
  message to digest.
\<close>

type_synonym hmac_fn = "byte list \<Rightarrow> byte list \<Rightarrow> byte list"

datatype js_error = RangeError

text \<open>\<open>buffer.writeBigUInt64BE(BigInt(counter), 0)\<close> on an 8-byte buffer; it throws a
  \<open>RangeError\<close> outside \<open>0 .. 2^64 - 1\<close>.\<close>

definition writeBigUInt64BE :: "int \<Rightarrow> js_error + byte list" where
  "writeBigUInt64BE counter =
     (if counter < 0 \<or> 2 ^ 64 \<le> counter then Inl RangeError
      else Inr (map (\<lambda>i. word_of_int (counter div 2 ^ (8 * (7 - i)) mod 256)) [0..<8]))"

text \<open>\<open>hash[i] & mask\<close>: an index past the end reads \<open>undefined\<close>, which \<open>&\<close> turns into 0.\<close>

definition byte_and :: "byte list \<Rightarrow> nat \<Rightarrow> 32 word \<Rightarrow> 32 word" where
  "byte_and hash i m = (if i < length hash then ucast (hash ! i) AND m else 0)"

text \<open>\<open>a % b\<close> on integers: the remainder has the sign of \<open>a\<close>.\<close>

definition js_rem :: "int \<Rightarrow> int \<Rightarrow> int" where
  "js_rem a b = sgn a * (\<bar>a\<bar> mod \<bar>b\<bar>)"

text \<open>\<open>Number.prototype.toString()\<close> on an integer.\<close>

fun digits_of :: "nat \<Rightarrow> string" where
  "digits_of n =
     (if n < 10 then [''0123456789'' ! n]
      else digits_of (n div 10) @ [''0123456789'' ! (n mod 10)])"

declare digits_of.simps [simp del]

definition toString :: "int \<Rightarrow> jsstring" where
  "toString n = js (if n < 0 then CHR ''-'' # digits_of (nat (- n)) else digits_of (nat n))"

text \<open>\<open>s.padStart(n, c)\<close> for a one-character \<open>c\<close>.\<close>

definition padStart :: "nat \<Rightarrow> 'a \<Rightarrow> 'a list \<Rightarrow> 'a list" where
  "padStart n c s = replicate (n - length s) c @ s"

definition DIGITS :: nat where
  "DIGITS = 6"

definition PERIOD :: int where
  "PERIOD = 30"

definition generateCodeForCounter :: "hmac_fn \<Rightarrow> upper_fn \<Rightarrow> jsstring \<Rightarrow> int \<Rightarrow> js_error + jsstring" where
  "generateCodeForCounter hmac upper secret counter =
     (case writeBigUInt64BE counter of
        Inl e \<Rightarrow> Inl e
      | Inr buffer \<Rightarrow>
          (let key = base32Decode upper secret;
               hash = hmac key buffer;
               offset = unat (byte_and hash (length hash - 1) 0xf);
               code = push_bit 24 (byte_and hash offset 0x7f)
                      OR push_bit 16 (byte_and hash (offset + 1) 0xff)
                      OR push_bit 8 (byte_and hash (offset + 2) 0xff)
                      OR byte_and hash (offset + 3) 0xff
           in Inr (padStart DIGITS (js_char CHR ''0'') (toString (js_rem (sint code) (10 ^ DIGITS))))))"

text \<open>\<open>generateCode\<close>; \<open>time || Date.now()\<close> takes the clock when \<open>time\<close> is missing or 0.\<close>

definition generateCode ::
  "hmac_fn \<Rightarrow> upper_fn \<Rightarrow> int \<Rightarrow> jsstring \<Rightarrow> int option \<Rightarrow> js_error + jsstring" where
  "generateCode hmac upper now secret time =
     (let counter = \<lfloor>real_of_int (js_or time now) / 1000 / real_of_int PERIOD\<rfloor>
      in generateCodeForCounter hmac upper secret counter)"

text \<open>The \<open>for\<close> loop of \<open>verifyCode\<close>, from \<open>i\<close> on.\<close>

function verify_loop ::
  "hmac_fn \<Rightarrow> upper_fn \<Rightarrow> jsstring \<Rightarrow> jsstring \<Rightarrow> int \<Rightarrow> int \<Rightarrow> int \<Rightarrow> js_error + bool" where
  "verify_loop hmac upper secret code counter tolerance i =
     (if i \<le> tolerance
      then (case generateCodeForCounter hmac upper secret (counter + i) of
              Inl e \<Rightarrow> Inl e
            | Inr expectedCode \<Rightarrow>
                if expectedCode = code then Inr True
                else verify_loop hmac upper secret code counter tolerance (i + 1))
      else Inr False)"
  by pat_completeness auto
termination
  by (relation "measure (\<lambda>(hmac, upper, secret, code, counter, tolerance, i). nat (tolerance + 1 - i))") auto

declare verify_loop.simps [simp del]

definition verifyCode ::
  "hmac_fn \<Rightarrow> upper_fn \<Rightarrow> int \<Rightarrow> jsstring \<Rightarrow> jsstring \<Rightarrow> int \<Rightarrow> js_error + bool" where
  "verifyCode hmac upper now secret code tolerance =
     (let counter = \<lfloor>real_of_int now / 1000 / real_of_int PERIOD\<rfloor>
      in verify_loop hmac upper secret code counter tolerance (- tolerance))"


text \<open>
  The steps of the specification, in its own words, to compare \<open>generateCodeForCounter\<close>
  with: the low 4 bits of the last hash byte as offset, the 4 bytes at that offset as a
  big-endian integer masked to 31 bits, and the six decimal digits of a number.
\<close>

definition dynamic_truncation :: "byte list \<Rightarrow> int" where
  "dynamic_truncation hash =
     (let offset = nat (uint (last hash) mod 16)
      in be_val (take 4 (drop offset hash)) mod 2 ^ 31)"

definition six_digits :: "nat \<Rightarrow> string" where
  "six_digits n = map (\<lambda>k. ''0123456789'' ! (n div 10 ^ k mod 10)) [5, 4, 3, 2, 1, 0]"


section \<open>HMAC-SHA-1\<close>

text \<open>
  For concrete evaluations of the functions that take \<open>hmac\<close>: HMAC (RFC 2104) over SHA-1
  (FIPS 180-4), which is what \<open>crypto.createHmac('sha1', key)\<close> computes. Bytes and 32-bit
  words are integers here, with the reduction modulo \<open>2^32\<close> written out.
\<close>

text \<open>Addition of 32-bit words.\<close>

definition add32 :: "int \<Rightarrow> int \<Rightarrow> int" where
  "add32 a b = (a + b) mod 2 ^ 32"

text \<open>Rotation of a 32-bit word to the left.\<close>

definition rotl :: "nat \<Rightarrow> int \<Rightarrow> int" where
  "rotl n w = (w * 2 ^ n) mod 2 ^ 32 + w div 2 ^ (32 - n)"

text \<open>The complement of a 32-bit word.\<close>

definition not32 :: "int \<Rightarrow> int" where
  "not32 w = 2 ^ 32 - 1 - w"

text \<open>Padding: the byte \<open>0x80\<close>, zeros up to 56 modulo 64, and the bit length as 8 bytes.\<close>

definition sha1_pad :: "int list \<Rightarrow> int list" where
  "sha1_pad msg =
     msg @ [0x80] @ replicate ((119 - length msg mod 64) mod 64) 0
         @ map (\<lambda>i. (8 * int (length msg)) div 2 ^ (8 * (7 - i)) mod 256) [0..<8]"

text \<open>The 32-bit words of a block, big-endian.\<close>

fun be_words :: "int list \<Rightarrow> int list" where
  "be_words (b0 # b1 # b2 # b3 # bs) = (b0 * 2 ^ 24 + b1 * 2 ^ 16 + b2 * 2 ^ 8 + b3) # be_words bs"
| "be_words bs = []"

text \<open>The message schedule, kept with its latest word first.\<close>

fun sha1_expand_step :: "int list \<Rightarrow> int list" where
  "sha1_expand_step ws = rotl 1 (ws ! 2 XOR ws ! 7 XOR ws ! 13 XOR ws ! 15) # ws"

definition sha1_expand :: "int list \<Rightarrow> int list" where
  "sha1_expand ws16 = rev ((sha1_expand_step ^^ 64) (rev ws16))"

text \<open>The round functions and constants.\<close>

definition sha1_f :: "nat \<Rightarrow> int \<Rightarrow> int \<Rightarrow> int \<Rightarrow> int" where
  "sha1_f t b c d =
     (if t < 20 then (b AND c) OR (not32 b AND d)
      else if t < 40 then b XOR c XOR d
      else if t < 60 then (b AND c) OR (b AND d) OR (c AND d)
      else b XOR c XOR d)"

definition sha1_k :: "nat \<Rightarrow> int" where
  "sha1_k t = (if t < 20 then 0x5A827999 else if t < 40 then 0x6ED9EBA1
               else if t < 60 then 0x8F1BBCDC else 0xCA62C1D6)"

text \<open>One round, and the compression of one 64-byte block.\<close>

type_synonym sha1_state = "int \<times> int \<times> int \<times> int \<times> int"

fun sha1_round :: "nat \<times> int \<Rightarrow> sha1_state \<Rightarrow> sha1_state" where
  "sha1_round (t, w) (a, b, c, d, e) =
     (add32 (add32 (add32 (add32 (rotl 5 a) (sha1_f t b c d)) e) (sha1_k t)) w, a, rotl 30 b, c, d)"

fun sha1_add :: "sha1_state \<Rightarrow> sha1_state \<Rightarrow> sha1_state" where
  "sha1_add (h0, h1, h2, h3, h4) (a, b, c, d, e) =
     (add32 h0 a, add32 h1 b, add32 h2 c, add32 h3 d, add32 h4 e)"

definition sha1_block :: "sha1_state \<Rightarrow> int list \<Rightarrow> sha1_state" where
  "sha1_block h block = sha1_add h (fold sha1_round (zip [0..<80] (sha1_expand (be_words block))) h)"

text \<open>The compression of a padded message, block by block.\<close>

fun sha1_blocks :: "sha1_state \<Rightarrow> int list \<Rightarrow> sha1_state" where
  "sha1_blocks h bs =
     (if length bs < 64 then h else sha1_blocks (sha1_block h (take 64 bs)) (drop 64 bs))"

declare sha1_blocks.simps [simp del]

definition sha1_init :: sha1_state where
  "sha1_init = (0x67452301, 0xEFCDAB89, 0x98BADCFE, 0x10325476, 0xC3D2E1F0)"

definition be_bytes :: "int \<Rightarrow> int list" where
  "be_bytes w = [w div 2 ^ 24 mod 256, w div 2 ^ 16 mod 256, w div 2 ^ 8 mod 256, w mod 256]"

definition state_bytes :: "sha1_state \<Rightarrow> int list" where
  "state_bytes = (\<lambda>(h0, h1, h2, h3, h4).
     be_bytes h0 @ be_bytes h1 @ be_bytes h2 @ be_bytes h3 @ be_bytes h4)"

definition sha1 :: "int list \<Rightarrow> int list" where
  "sha1 msg = state_bytes (sha1_blocks sha1_init (sha1_pad msg))"

text \<open>HMAC: a key longer than a block is hashed, the key is filled with zeros to 64 bytes.\<close>

definition hmac_sha1 :: hmac_fn where
  "hmac_sha1 key msg =
     (let k0 = (if length key > 64 then sha1 (map uint key) else map uint key);
          k = k0 @ replicate (64 - length k0) 0;
          inner = sha1 (map (\<lambda>b. b XOR 0x36) k @ map uint msg)
      in map word_of_int (sha1 (map (\<lambda>b. b XOR 0x5c) k @ inner)))"

text \<open>
  The secret of the evaluations: the Base32 form of the 20 bytes \<open>12345678901234567890\<close>,
  the key of the test values of RFC 4226.
\<close>

definition sample_key :: "byte list" where
  "sample_key = [0x31, 0x32, 0x33, 0x34, 0x35, 0x36, 0x37, 0x38, 0x39, 0x30,
                 0x31, 0x32, 0x33, 0x34, 0x35, 0x36, 0x37, 0x38, 0x39, 0x30]"

definition sample_secret :: jsstring where
  "sample_secret = js ''GEZDGNBVGY3TQOJQGEZDGNBVGY3TQOJQ''"


chapter \<open>Properties\<close>

section \<open>Account lockout tracker\<close>

text \<open>
  Claim C6. \<open>recordFailedAttempt\<close> stores 1 on an account with no row and the row's count
  plus one otherwise; it sets \<open>locked_until\<close> to \<open>now\<close> + 15 minutes exactly when the new
  count has reached the threshold 5 (it is null otherwise, whatever it was before), always
  stores the attempt time and the origin address, and touches no other account's row.
  \<open>checkAccountLockout\<close> on a row whose \<open>locked_until\<close> is \<open>t\<close> reports the lock with the
  remaining time \<open>t - now\<close> and leaves the table alone while \<open>now < t\<close>; from \<open>t\<close> on it
  deletes the row and reports the account as not locked.
\<close>

theorem lockout_record_and_check:
  "(account_lockouts db userId = None \<longrightarrow>
      account_lockouts (recordFailedAttempt userId ip now db) userId =
        Some \<lparr>failed_attempts = 1, locked_until = None, ip_address = ip, last_attempt = now\<rparr>)
   \<and> (\<forall>r. account_lockouts db userId = Some r \<longrightarrow>
        account_lockouts (recordFailedAttempt userId ip now db) userId =
          Some \<lparr>failed_attempts = failed_attempts r + 1,
                locked_until = (if failed_attempts r + 1 \<ge> 5
                                then Some (now + 15 * 60 * 1000) else None),
                ip_address = ip, last_attempt = now\<rparr>)
   \<and> (\<forall>u. u \<noteq> userId \<longrightarrow>
        account_lockouts (recordFailedAttempt userId ip now db) u = account_lockouts db u)
   \<and> (\<forall>r t. account_lockouts db userId = Some r \<and> locked_until r = Some t \<longrightarrow>
        checkAccountLockout userId now db =
          (if now < t
           then (\<lparr>locked = True, remainingTime = t - now, failedAttempts = failed_attempts r\<rparr>, db)
           else (\<lparr>locked = False, remainingTime = 0, failedAttempts = 0\<rparr>,
                 db\<lparr>account_lockouts := (account_lockouts db)(userId := None)\<rparr>)))"
  by (simp add: recordFailedAttempt_def checkAccountLockout_def date_getTime_def
      existing_failed_attempts_def maxFailedAttempts_def lockoutDuration_def Let_def)

theorem lockout_record_and_check_witness:
  "account_lockouts
      (recordFailedAttempt ''u1'' ''10.0.0.7'' 1000
         \<lparr>account_lockouts = Map.empty, user_sessions = [], security_log = []\<rparr>) ''u1''
     = Some \<lparr>failed_attempts = 1, locked_until = None, ip_address = ''10.0.0.7'',
             last_attempt = 1000\<rparr>
   \<and> account_lockouts
      (recordFailedAttempt ''u1'' ''10.0.0.7'' 1000
         (db_with_lockout ''u1'' \<lparr>failed_attempts = 3, locked_until = None,
             ip_address = ''10.0.0.1'', last_attempt = 900\<rparr>)) ''u1''
     = Some \<lparr>failed_attempts = 4, locked_until = None, ip_address = ''10.0.0.7'',
             last_attempt = 1000\<rparr>
   \<and> account_lockouts
      (recordFailedAttempt ''u1'' ''10.0.0.7'' 1000
         (db_with_lockout ''u1'' \<lparr>failed_attempts = 4, locked_until = None,
             ip_address = ''10.0.0.1'', last_attempt = 900\<rparr>)) ''u1''
     = Some \<lparr>failed_attempts = 5, locked_until = Some 901000, ip_address = ''10.0.0.7'',
             last_attempt = 1000\<rparr>
   \<and> account_lockouts
      (recordFailedAttempt ''u1'' ''10.0.0.7'' 1000
         (db_with_lockout ''u2'' \<lparr>failed_attempts = 4, locked_until = None,
             ip_address = ''10.0.0.1'', last_attempt = 900\<rparr>)) ''u2''
     = Some \<lparr>failed_attempts = 4, locked_until = None, ip_address = ''10.0.0.1'',
             last_attempt = 900\<rparr>
   \<and> checkAccountLockout ''u1'' 2000
        (db_with_lockout ''u1'' \<lparr>failed_attempts = 5, locked_until = Some 901000,
             ip_address = ''10.0.0.7'', last_attempt = 1000\<rparr>) =
       (\<lparr>locked = True, remainingTime = 899000, failedAttempts = 5\<rparr>,
        db_with_lockout ''u1'' \<lparr>failed_attempts = 5, locked_until = Some 901000,
             ip_address = ''10.0.0.7'', last_attempt = 1000\<rparr>)
   \<and> account_lockouts (snd (checkAccountLockout ''u1'' 901000
        (db_with_lockout ''u1'' \<lparr>failed_attempts = 5, locked_until = Some 901000,
             ip_address = ''10.0.0.7'', last_attempt = 1000\<rparr>))) ''u1'' = None"
  using
    lockout_record_and_check [where userId = "''u1''" and ip = "''10.0.0.7''" and now = 1000
      and db = "\<lparr>account_lockouts = Map.empty, user_sessions = [], security_log = []\<rparr>"]
    lockout_record_and_check [where userId = "''u1''" and ip = "''10.0.0.7''" and now = 1000
      and db = "db_with_lockout ''u1'' \<lparr>failed_attempts = 3, locked_until = None,
         ip_address = ''10.0.0.1'', last_attempt = 900\<rparr>"]
    lockout_record_and_check [where userId = "''u1''" and ip = "''10.0.0.7''" and now = 1000
      and db = "db_with_lockout ''u1'' \<lparr>failed_attempts = 4, locked_until = None,
         ip_address = ''10.0.0.1'', last_attempt = 900\<rparr>"]
    lockout_record_and_check [where userId = "''u1''" and ip = "''10.0.0.7''" and now = 1000
      and db = "db_with_lockout ''u2'' \<lparr>failed_attempts = 4, locked_until = None,
         ip_address = ''10.0.0.1'', last_attempt = 900\<rparr>"]
    lockout_record_and_check [where userId = "''u1''" and now = 2000
      and db = "db_with_lockout ''u1'' \<lparr>failed_attempts = 5, locked_until = Some 901000,
         ip_address = ''10.0.0.7'', last_attempt = 1000\<rparr>"]
    lockout_record_and_check [where userId = "''u1''" and now = 901000
      and db = "db_with_lockout ''u1'' \<lparr>failed_attempts = 5, locked_until = Some 901000,
         ip_address = ''10.0.0.7'', last_attempt = 1000\<rparr>"]
  by (simp add: db_with_lockout_def)

text \<open>
  Claim C7 (the code departs from it). A row with one to four failed attempts has a null
  \<open>locked_until\<close>; \<open>checkAccountLockout\<close> reads it through \<open>new Date(null).getTime()\<close>,
  which is 0, so \<open>now < lockoutExpiry\<close> is false and the branch commented
  "Clear expired lockout" deletes the row: the counter of an account that was never
  locked is lost and the reported \<open>failedAttempts\<close> is 0. Evaluated after three recorded
  failures:
\<close>

theorem checkAccountLockout_deletes_unlocked_row:
  "account_lockouts
     (recordFailedAttempt ''u1'' ''10.0.0.7'' 1700000003000
       (recordFailedAttempt ''u1'' ''10.0.0.7'' 1700000002000
         (recordFailedAttempt ''u1'' ''10.0.0.7'' 1700000001000
           \<lparr>account_lockouts = Map.empty, user_sessions = [], security_log = []\<rparr>))) ''u1''
     = Some \<lparr>failed_attempts = 3, locked_until = None, ip_address = ''10.0.0.7'',
             last_attempt = 1700000003000\<rparr>
   \<and> fst (checkAccountLockout ''u1'' 1700000004000
       (recordFailedAttempt ''u1'' ''10.0.0.7'' 1700000003000
         (recordFailedAttempt ''u1'' ''10.0.0.7'' 1700000002000
           (recordFailedAttempt ''u1'' ''10.0.0.7'' 1700000001000
             \<lparr>account_lockouts = Map.empty, user_sessions = [], security_log = []\<rparr>))))
     = \<lparr>locked = False, remainingTime = 0, failedAttempts = 0\<rparr>
   \<and> account_lockouts (snd (checkAccountLockout ''u1'' 1700000004000
       (recordFailedAttempt ''u1'' ''10.0.0.7'' 1700000003000
         (recordFailedAttempt ''u1'' ''10.0.0.7'' 1700000002000
           (recordFailedAttempt ''u1'' ''10.0.0.7'' 1700000001000
             \<lparr>account_lockouts = Map.empty, user_sessions = [], security_log = []\<rparr>))))) ''u1''
     = None"
  by (simp add: recordFailedAttempt_def checkAccountLockout_def date_getTime_def
      existing_failed_attempts_def maxFailedAttempts_def lockoutDuration_def Let_def)

section \<open>Rate limiter\<close>

lemma checkRateLimit_in_window:
  assumes "store (rate_limit_key ip ep) = Some \<lparr>count = c, resetTime = R\<rparr>" and "now \<le> R"
  shows "checkRateLimit cfg ip ep now store =
     (if c < config_maxRequests cfg
      then (\<lparr>allowed = True, retryAfter = None,
             remaining = Some (config_maxRequests cfg - (c + 1))\<rparr>,
            store(rate_limit_key ip ep \<mapsto> \<lparr>count = c + 1, resetTime = R\<rparr>))
      else (\<lparr>allowed = False, retryAfter = Some \<lceil>real_of_int (R - now) / 1000\<rceil>,
             remaining = Some 0\<rparr>, store))"
  using assms by (simp add: checkRateLimit_def Let_def)

lemma checkRateLimit_fresh:
  assumes "store (rate_limit_key ip ep) = None
           \<or> (\<exists>e. store (rate_limit_key ip ep) = Some e \<and> resetTime e < now)"
  shows "checkRateLimit cfg ip ep now store =
     (\<lparr>allowed = True, retryAfter = None, remaining = Some (config_maxRequests cfg - 1)\<rparr>,
      store(rate_limit_key ip ep \<mapsto> \<lparr>count = 1, resetTime = now + config_windowMs cfg\<rparr>))"
  using assms by (auto simp add: checkRateLimit_def Let_def)

lemma window_result_Suc: "window_result cfg c R (Suc i, t) = window_result cfg (c + 1) R (i, t)"
  by (simp add: window_result_def algebra_simps)

lemma zip_upt_Cons:
  "zip [0..<length (t # ts)] (t # ts) = (0, t) # map (\<lambda>(i, x). (Suc i, x)) (zip [0..<length ts] ts)"
proof -
  have "[0..<length (t # ts)] = 0 # map Suc [0..<length ts]"
    by (simp add: upt_conv_Cons map_Suc_upt del: upt_Suc)
  then show ?thesis
    by (simp add: zip_map1 del: upt_Suc)
qed

lemma rateLimitCalls_in_window:
  assumes "store (rate_limit_key ip ep) = Some \<lparr>count = c, resetTime = R\<rparr>"
    and "\<forall>t \<in> set ts. t \<le> R"
  shows "fst (rateLimitCalls cfg ip ep ts store) = map (window_result cfg c R) (zip [0..<length ts] ts)
       \<and> (\<exists>c'. snd (rateLimitCalls cfg ip ep ts store) (rate_limit_key ip ep)
              = Some \<lparr>count = c', resetTime = R\<rparr>)"
  using assms
proof (induction ts arbitrary: c store)
  case Nil
  then show ?case by simp
next
  case (Cons t ts)
  let ?key = "rate_limit_key ip ep"
  have tR: "t \<le> R" and rest: "\<forall>t \<in> set ts. t \<le> R" using Cons.prems(2) by simp_all
  note step = checkRateLimit_in_window [where store = store and ip = ip and ep = ep and cfg = cfg,
      OF Cons.prems(1) tR]
  show ?case
  proof (cases "c < config_maxRequests cfg")
    case True
    let ?store' = "store(?key \<mapsto> \<lparr>count = c + 1, resetTime = R\<rparr>)"
    have s': "?store' ?key = Some \<lparr>count = c + 1, resetTime = R\<rparr>" by simp
    have chk: "checkRateLimit cfg ip ep t store = (window_result cfg c R (0, t), ?store')"
      using step True by (simp add: window_result_def)
    have "map (window_result cfg c R) (map (\<lambda>(i, x). (Suc i, x)) (zip [0..<length ts] ts))
        = map (window_result cfg (c + 1) R) (zip [0..<length ts] ts)"
      by (simp add: window_result_Suc split_def)
    with Cons.IH [where store = ?store', OF s' rest] chk show ?thesis
      unfolding zip_upt_Cons by (simp add: split_def del: fun_upd_apply)
  next
    case False
    have chk: "checkRateLimit cfg ip ep t store = (window_result cfg c R (0, t), store)"
      using step False by (simp add: window_result_def)
    have "map (window_result cfg c R) (map (\<lambda>(i, x). (Suc i, x)) (zip [0..<length ts] ts))
        = map (window_result cfg c R) (zip [0..<length ts] ts)"
      using False by (simp add: window_result_def split_def)
    with Cons.IH [where store = store, OF Cons.prems(1) rest] chk show ?thesis
      unfolding zip_upt_Cons by (simp add: split_def)
  qed
qed

lemma config_limit_config [simp]:
  "config_windowMs (limit_config w m) = (if w = 0 then 60000 else w)"
  "config_maxRequests (limit_config w m) = (if m = 0 then 100 else m)"
  by (simp_all add: limit_config_def config_windowMs_def config_maxRequests_def js_or_def
      RATE_LIMIT_windowMs_def RATE_LIMIT_maxRequests_def)

text \<open>
  Claim C4, as the code has it. In a window opened by a call at \<open>t0\<close> (no entry for the
  key, or an entry whose reset time has passed), with an effective \<open>maxRequests\<close> of at
  least 1 and every later call at a time up to the reset time \<open>t0 + windowMs\<close>, call
  number \<open>i\<close> (from 0) is allowed exactly when \<open>i < maxRequests\<close>: the first \<open>maxRequests\<close>
  calls pass and every further one is rejected. A rejected call carries
  \<open>retryAfter = ceil((resetTime - now) / 1000)\<close>, which is positive exactly when the call
  comes before the reset time (it is 0 at the reset time itself, which still belongs to
  the window). The first call after the reset time is allowed and stores count 1 with
  the new reset time \<open>now + windowMs\<close>.
\<close>

theorem rate_limit_window:
  assumes fresh: "store (rate_limit_key ip ep) = None
                  \<or> (\<exists>e. store (rate_limit_key ip ep) = Some e \<and> resetTime e < t0)"
    and inwin: "\<forall>t \<in> set ts. t \<le> t0 + config_windowMs cfg"
    and limit: "1 \<le> config_maxRequests cfg"
    and after: "t0 + config_windowMs cfg < t1"
  shows "(\<forall>i < length (t0 # ts).
            allowed (fst (rateLimitCalls cfg ip ep (t0 # ts) store) ! i)
              = (int i < config_maxRequests cfg))
       \<and> (\<forall>i < length (t0 # ts). config_maxRequests cfg \<le> int i \<longrightarrow>
            retryAfter (fst (rateLimitCalls cfg ip ep (t0 # ts) store) ! i)
              = Some \<lceil>real_of_int (t0 + config_windowMs cfg - (t0 # ts) ! i) / 1000\<rceil>
            \<and> (0 < \<lceil>real_of_int (t0 + config_windowMs cfg - (t0 # ts) ! i) / 1000\<rceil>
                 \<longleftrightarrow> (t0 # ts) ! i < t0 + config_windowMs cfg))
       \<and> checkRateLimit cfg ip ep t1 (snd (rateLimitCalls cfg ip ep (t0 # ts) store))
           = (\<lparr>allowed = True, retryAfter = None, remaining = Some (config_maxRequests cfg - 1)\<rparr>,
              (snd (rateLimitCalls cfg ip ep (t0 # ts) store))
                (rate_limit_key ip ep \<mapsto> \<lparr>count = 1, resetTime = t1 + config_windowMs cfg\<rparr>))"
proof -
  let ?key = "rate_limit_key ip ep"
  let ?W = "config_windowMs cfg"
  let ?M = "config_maxRequests cfg"
  let ?store1 = "store(?key \<mapsto> \<lparr>count = 1, resetTime = t0 + ?W\<rparr>)"
  have first: "checkRateLimit cfg ip ep t0 store =
      (\<lparr>allowed = True, retryAfter = None, remaining = Some (?M - 1)\<rparr>, ?store1)"
    using fresh by (rule checkRateLimit_fresh [where store = store and ip = ip and ep = ep])
  have s1: "?store1 ?key = Some \<lparr>count = 1, resetTime = t0 + ?W\<rparr>" by simp
  note win = rateLimitCalls_in_window [where store = ?store1 and cfg = cfg, OF s1 inwin]
  have first': "\<lparr>allowed = True, retryAfter = None, remaining = Some (?M - 1)\<rparr>
      = window_result cfg 0 (t0 + ?W) (0, t0)"
    using limit by (simp add: window_result_def)
  have shift: "map (window_result cfg 1 (t0 + ?W)) (zip [0..<length ts] ts)
      = map (window_result cfg 0 (t0 + ?W)) (map (\<lambda>(i, x). (Suc i, x)) (zip [0..<length ts] ts))"
    by (simp add: window_result_Suc split_def)
  have rs: "fst (rateLimitCalls cfg ip ep (t0 # ts) store)
      = map (window_result cfg 0 (t0 + ?W)) (zip [0..<length (t0 # ts)] (t0 # ts))"
    unfolding zip_upt_Cons using first win first' shift
    by (simp add: split_def del: fun_upd_apply)
  have st: "snd (rateLimitCalls cfg ip ep (t0 # ts) store) = snd (rateLimitCalls cfg ip ep ts ?store1)"
    using first by (simp add: split_def del: fun_upd_apply)
  from win obtain c' where c': "snd (rateLimitCalls cfg ip ep (t0 # ts) store) ?key
      = Some \<lparr>count = c', resetTime = t0 + ?W\<rparr>"
    unfolding st by blast
  have nth: "fst (rateLimitCalls cfg ip ep (t0 # ts) store) ! i
      = window_result cfg 0 (t0 + ?W) (i, (t0 # ts) ! i)" if "i < length (t0 # ts)" for i
    using that unfolding rs by (simp del: upt_Suc length_Cons nth_Cons_Suc add: nth_zip)
  have A: "\<forall>i < length (t0 # ts).
      allowed (fst (rateLimitCalls cfg ip ep (t0 # ts) store) ! i) = (int i < ?M)"
    using nth by (simp add: window_result_def)
  have pos: "(0 < \<lceil>real_of_int d / 1000\<rceil>) = (0 < d)" for d :: int
    by (simp add: zero_less_ceiling)
  have B: "\<forall>i < length (t0 # ts). ?M \<le> int i \<longrightarrow>
      retryAfter (fst (rateLimitCalls cfg ip ep (t0 # ts) store) ! i)
        = Some \<lceil>real_of_int (t0 + ?W - (t0 # ts) ! i) / 1000\<rceil>
      \<and> (0 < \<lceil>real_of_int (t0 + ?W - (t0 # ts) ! i) / 1000\<rceil> \<longleftrightarrow> (t0 # ts) ! i < t0 + ?W)"
  proof (intro allI impI)
    fix i
    assume i: "i < length (t0 # ts)" and M: "?M \<le> int i"
    have "retryAfter (fst (rateLimitCalls cfg ip ep (t0 # ts) store) ! i)
        = Some \<lceil>real_of_int (t0 + ?W - (t0 # ts) ! i) / 1000\<rceil>"
      unfolding nth [OF i] using M by (simp add: window_result_def)
    moreover have "(0 < \<lceil>real_of_int (t0 + ?W - (t0 # ts) ! i) / 1000\<rceil>) = ((t0 # ts) ! i < t0 + ?W)"
      unfolding pos by linarith
    ultimately show "retryAfter (fst (rateLimitCalls cfg ip ep (t0 # ts) store) ! i)
        = Some \<lceil>real_of_int (t0 + ?W - (t0 # ts) ! i) / 1000\<rceil>
      \<and> (0 < \<lceil>real_of_int (t0 + ?W - (t0 # ts) ! i) / 1000\<rceil> \<longleftrightarrow> (t0 # ts) ! i < t0 + ?W)"
      by blast
  qed
  have C: "checkRateLimit cfg ip ep t1 (snd (rateLimitCalls cfg ip ep (t0 # ts) store))
      = (\<lparr>allowed = True, retryAfter = None, remaining = Some (?M - 1)\<rparr>,
         (snd (rateLimitCalls cfg ip ep (t0 # ts) store))
           (?key \<mapsto> \<lparr>count = 1, resetTime = t1 + ?W\<rparr>))"
    by (rule checkRateLimit_fresh [where store = "snd (rateLimitCalls cfg ip ep (t0 # ts) store)" and ip = ip and ep = ep]) (use c' after in simp)
  from A B C show ?thesis by blast
qed

theorem rate_limit_window_witness:
  "map allowed (fst (rateLimitCalls (limit_config 60000 2) ''203.0.113.9'' ''/api/x''
      [1000, 2000, 3000, 61000] Map.empty)) = [True, True, False, False]
   \<and> map retryAfter (fst (rateLimitCalls (limit_config 60000 2) ''203.0.113.9'' ''/api/x''
      [1000, 2000, 3000, 61000] Map.empty)) = [None, None, Some 58, Some 0]
   \<and> fst (checkRateLimit (limit_config 60000 2) ''203.0.113.9'' ''/api/x'' 61001
        (snd (rateLimitCalls (limit_config 60000 2) ''203.0.113.9'' ''/api/x''
           [1000, 2000, 3000, 61000] Map.empty)))
       = \<lparr>allowed = True, retryAfter = None, remaining = Some 1\<rparr>"
proof -
  have fresh: "(Map.empty :: rate_limit_store) (rate_limit_key ''203.0.113.9'' ''/api/x'') = None
      \<or> (\<exists>e. (Map.empty :: rate_limit_store) (rate_limit_key ''203.0.113.9'' ''/api/x'') = Some e
             \<and> resetTime e < 1000)"
    by simp
  have inwin: "\<forall>t \<in> set [2000, 3000, 61000 :: int]. t \<le> 1000 + config_windowMs (limit_config 60000 2)"
    by simp
  have limit: "1 \<le> config_maxRequests (limit_config 60000 2)"
    by simp
  have after: "1000 + config_windowMs (limit_config 60000 2) < 61001"
    by simp
  from rate_limit_window [where store = Map.empty and ip = "''203.0.113.9''" and ep = "''/api/x''",
      OF fresh inwin limit after]
  show ?thesis
    by (simp add: checkRateLimit_def Let_def)
qed

text \<open>
  The claim as worded fails at the last millisecond of a window: with \<open>maxRequests = 2\<close>
  and a window opened at 1000 ms, the third call at 61000 ms (the reset time, not yet
  past it) is rejected with \<open>retryAfter = 0\<close>.
\<close>

theorem rate_limit_retry_after_zero:
  "rateLimitCalls (limit_config 60000 2) ''203.0.113.9'' ''/api/x'' [1000, 2000, 61000] Map.empty
     = ([\<lparr>allowed = True, retryAfter = None, remaining = Some 1\<rparr>,
         \<lparr>allowed = True, retryAfter = None, remaining = Some 0\<rparr>,
         \<lparr>allowed = False, retryAfter = Some 0, remaining = Some 0\<rparr>],
        Map.empty(rate_limit_key ''203.0.113.9'' ''/api/x'' \<mapsto> \<lparr>count = 2, resetTime = 61000\<rparr>))"
  by (simp add: checkRateLimit_def Let_def)

section \<open>Backup codes\<close>

text \<open>After the removal a code verifies again exactly when it verified before and the
  upper-cased submission contains white space; this holds whatever \<open>toUpperCase\<close> computes.\<close>

lemma verifyBackupCode_after_removal:
  "verifyBackupCode upper code (removeUsedCode upper code stored)
     \<longleftrightarrow> verifyBackupCode upper code stored \<and> (\<exists>c \<in> set (upper code). is_space c)"
proof -
  have "filter (\<lambda>c. \<not> is_space c) (upper code) \<noteq> upper code \<longleftrightarrow> (\<exists>c \<in> set (upper code). is_space c)"
    by (simp add: filter_id_conv)
  then show ?thesis
    by (auto simp add: verifyBackupCode_def removeUsedCode_def Let_def)
qed

text \<open>
  Claim C8 (the code departs from it). \<open>verifyBackupCode\<close> looks up the upper-cased
  submission with its white space deleted; the removal that both callers perform after a
  match, under the comment "Remove used backup code", filters out the entries equal to
  the upper-cased submission with its white space kept. When the upper-cased submission
  contains white space nothing is removed and the same submission is accepted again. The
  callers admit submissions of 8 code units, the length of a stored code, but
  \<open>toUpperCase\<close> can lengthen a string: \<open>3F9A01\<close>, the ligature ff (U+FB00) and a space
  are 8 code units, and their upper case is \<open>3F9A01FF\<close> and a space. Evaluated: the two
  functions on a submission with a space in it; the route, twice, on the 8 code units
  above; and the route, twice, on a submission without white space, where the code is
  used up.
\<close>

theorem backup_code_accepted_twice:
  "verifyBackupCode toUpperCase_sample (js ''3f9a 01ff'') [js ''3F9A01FF'', js ''0A1B2C3D'']
   \<and> removeUsedCode toUpperCase_sample (js ''3f9a 01ff'') [js ''3F9A01FF'', js ''0A1B2C3D'']
       = [js ''3F9A01FF'', js ''0A1B2C3D'']
   \<and> verifyBackupCode toUpperCase_sample (js ''3f9a 01ff'')
        (removeUsedCode toUpperCase_sample (js ''3f9a 01ff'') [js ''3F9A01FF'', js ''0A1B2C3D''])
   \<and> length (js ''3F9A01'' @ [0xFB00, 0x20]) = 8
   \<and> verify_backup_POST toUpperCase_sample (Some ''u1'') (Some (js ''3F9A01'' @ [0xFB00, 0x20]))
        two_codes_table
       = (Valid_true_200, two_codes_table)
   \<and> verify_backup_POST toUpperCase_sample (Some ''u1'') (Some (js ''3F9A01'' @ [0xFB00, 0x20]))
        (snd (verify_backup_POST toUpperCase_sample (Some ''u1'')
                (Some (js ''3F9A01'' @ [0xFB00, 0x20])) two_codes_table))
       = (Valid_true_200, two_codes_table)
   \<and> map_option backup_codes
        (snd (verify_backup_POST toUpperCase_sample (Some ''u1'') (Some (js ''3f9a01ff''))
                two_codes_table) ''u1'')
       = Some [js ''0A1B2C3D'']
   \<and> fst (verify_backup_POST toUpperCase_sample (Some ''u1'') (Some (js ''3f9a01ff''))
        (snd (verify_backup_POST toUpperCase_sample (Some ''u1'') (Some (js ''3f9a01ff''))
                two_codes_table)))
       = Valid_false_200"
  by (simp add: verify_backup_POST_def verifyBackupCode_def removeUsedCode_def two_codes_table_def
      toUpperCase_sample_def toUpperCase_sample_unit_def is_space_def js_def js_char_def)


section \<open>Security gate\<close>

text \<open>
  Claim C9, as the code has it. In \<open>AdvancedSecurityMiddleware.handle\<close>, for a request that
  passed the rate limit on a configuration with \<open>requireAuth\<close> and \<open>require2FA\<close> and an
  authenticated user, the two-factor step answers 403 exactly when the account's TOTP
  credential is not enabled (no row, or \<open>is_enabled\<close> false); \<open>handle\<close> never reads the
  \<open>two_factor_ok\<close> marker. The marker is read by \<open>middleware\<close>, on paths under \<open>/vault/\<close>,
  \<open>/account\<close> and \<open>/settings\<close>: an authenticated user with an enabled credential and no
  marker equal to \<open>1\<close> is redirected to \<open>/two-factor-auth\<close>; that block produces no other
  response.
\<close>

theorem gate_two_factor_step:
  "(requireAuth config \<and> require2FA config \<and> req_user req = Some u
      \<and> (rateLimit config = None
           \<or> allowed (fst (checkRateLimit config (req_clientIP req) (req_pathname req) now store)))
     \<longrightarrow> (fst (handle config req now store) = Some (Json 403 ''Two-factor authentication required'')
            \<longleftrightarrow> req_two_factor_enabled req \<noteq> Some True))
   \<and> handle config (req\<lparr>req_cookie_two_factor_ok := cookie\<rparr>) now store = handle config req now store
   \<and> (middleware_two_factor req = Some (RedirectTo ''/two-factor-auth'')
        \<longleftrightarrow> (startsWith (req_pathname req) ''/vault/'' \<or> startsWith (req_pathname req) ''/account''
              \<or> startsWith (req_pathname req) ''/settings'')
            \<and> req_user req \<noteq> None \<and> req_two_factor_enabled req = Some True
            \<and> req_cookie_two_factor_ok req \<noteq> Some ''1'')
   \<and> (middleware_two_factor req = None \<or> middleware_two_factor req = Some (RedirectTo ''/two-factor-auth''))"
proof -
  have A: "requireAuth config \<and> require2FA config \<and> req_user req = Some u
      \<and> (rateLimit config = None
           \<or> allowed (fst (checkRateLimit config (req_clientIP req) (req_pathname req) now store)))
     \<longrightarrow> (fst (handle config req now store) = Some (Json 403 ''Two-factor authentication required'')
            \<longleftrightarrow> req_two_factor_enabled req \<noteq> Some True)"
    by (auto simp add: handle_def checkTwoFactorAuth_def checkSubscription_def
        split: option.splits prod.splits)
  have B: "handle config (req\<lparr>req_cookie_two_factor_ok := cookie\<rparr>) now store = handle config req now store"
    by (simp add: handle_def checkTwoFactorAuth_def checkSubscription_def
        cong: option.case_cong prod.case_cong if_cong)
  have C: "middleware_two_factor req = Some (RedirectTo ''/two-factor-auth'')
        \<longleftrightarrow> (startsWith (req_pathname req) ''/vault/'' \<or> startsWith (req_pathname req) ''/account''
              \<or> startsWith (req_pathname req) ''/settings'')
            \<and> req_user req \<noteq> None \<and> req_two_factor_enabled req = Some True
            \<and> req_cookie_two_factor_ok req \<noteq> Some ''1''"
    by (auto simp add: middleware_two_factor_def checkTwoFactorAuth_def split: option.splits)
  have D: "middleware_two_factor req = None \<or> middleware_two_factor req = Some (RedirectTo ''/two-factor-auth'')"
    by (auto simp add: middleware_two_factor_def split: option.splits)
  from A B C D show ?thesis by blast
qed

theorem gate_two_factor_step_witness:
  "fst (handle gate_2fa_config (enrolled_request\<lparr>req_two_factor_enabled := Some False\<rparr>) 1000 Map.empty)
     = Some (Json 403 ''Two-factor authentication required'')
   \<and> fst (handle gate_2fa_config (enrolled_request\<lparr>req_two_factor_enabled := None\<rparr>) 1000 Map.empty)
     = Some (Json 403 ''Two-factor authentication required'')
   \<and> fst (handle gate_2fa_config enrolled_request 1000 Map.empty)
     \<noteq> Some (Json 403 ''Two-factor authentication required'')"
proof -
  have pre: "requireAuth gate_2fa_config \<and> require2FA gate_2fa_config
      \<and> req_user (enrolled_request\<lparr>req_two_factor_enabled := e\<rparr>) = Some ''u1''
      \<and> (rateLimit gate_2fa_config = None
           \<or> allowed (fst (checkRateLimit gate_2fa_config
                (req_clientIP (enrolled_request\<lparr>req_two_factor_enabled := e\<rparr>))
                (req_pathname (enrolled_request\<lparr>req_two_factor_enabled := e\<rparr>)) 1000 Map.empty)))" for e
    by (simp add: gate_2fa_config_def default_config_def enrolled_request_def checkRateLimit_def Let_def)
  have e: "enrolled_request\<lparr>req_two_factor_enabled := Some True\<rparr> = enrolled_request"
    by (simp add: enrolled_request_def)
  have en: "req_two_factor_enabled enrolled_request = Some True"
    by (simp add: enrolled_request_def)
  from gate_two_factor_step [of gate_2fa_config "enrolled_request\<lparr>req_two_factor_enabled := Some False\<rparr>"
        "''u1''" 1000 Map.empty]
    gate_two_factor_step [of gate_2fa_config "enrolled_request\<lparr>req_two_factor_enabled := None\<rparr>"
        "''u1''" 1000 Map.empty]
    gate_two_factor_step [of gate_2fa_config "enrolled_request\<lparr>req_two_factor_enabled := Some True\<rparr>"
        "''u1''" 1000 Map.empty]
    pre [of "Some False"] pre [of None] pre [of "Some True"] en
  show ?thesis
    unfolding e by simp
qed

text \<open>
  The claim as worded fails: with 2FA demanded, an enabled credential and no marker,
  \<open>handle\<close> lets the request continue, and \<open>middleware\<close> answers with a redirect, not 403.
\<close>

theorem gate_passes_enrolled_account_without_marker:
  "req_cookie_two_factor_ok enrolled_request = None
   \<and> require2FA gate_2fa_config \<and> checkTwoFactorAuth enrolled_request
   \<and> fst (handle gate_2fa_config enrolled_request 1000 Map.empty) = None
   \<and> middleware_two_factor enrolled_request = Some (RedirectTo ''/two-factor-auth'')"
  by (simp add: gate_2fa_config_def default_config_def enrolled_request_def handle_def
      checkRateLimit_def checkTwoFactorAuth_def checkSubscription_def middleware_two_factor_def
      startsWith_def Let_def config_maxRequests_def config_windowMs_def js_or_def
      RATE_LIMIT_maxRequests_def RATE_LIMIT_windowMs_def)

section \<open>Session registry\<close>

lemma sorted_desc_take_drop:
  assumes "x \<in> set (take k (rev (sort_key f xs)))" and "y \<in> set (drop k (rev (sort_key f xs)))"
  shows "f y \<le> f x"
proof -
  let ?S = "rev (sort_key f xs)"
  have "sorted (map f (sort_key f xs))" by simp
  then have "sorted (rev (map f ?S))" by (simp add: rev_map)
  then have "sorted_wrt (\<lambda>a b. b \<le> a) (map f ?S)"
    by (simp add: sorted_wrt_rev)
  then have "sorted_wrt (\<lambda>a b. f b \<le> f a) (take k ?S @ drop k ?S)"
    by (simp add: sorted_wrt_map)
  then show ?thesis
    using assms unfolding sorted_wrt_append by blast
qed

lemma terminate_rows:
  assumes d: "distinct (map session_id (user_sessions db))"
    and gt: "keepCount < getActiveSessionCount userId db"
  defines "S \<equiv> rev (sort_key last_activity (filter (active_of userId) (user_sessions db)))"
  shows "user_sessions (terminateOldestSessions userId keepCount now db)
      = map (\<lambda>s. if s \<in> set (drop keepCount S)
                  then s\<lparr>is_active := False, terminated_at := Some now\<rparr> else s)
            (user_sessions db)"
proof -
  have inj: "inj_on session_id (set (user_sessions db))"
    using d by (simp add: distinct_map)
  have sub: "set (drop keepCount S) \<subseteq> set (user_sessions db)"
    using set_drop_subset [of keepCount S] by (auto simp add: S_def)
  have mem: "session_id s \<in> set (map session_id (drop keepCount S)) \<longleftrightarrow> s \<in> set (drop keepCount S)"
    if "s \<in> set (user_sessions db)" for s
    using that sub inj by (auto simp add: inj_on_def)
  have len: "keepCount < length S"
    using gt by (simp add: S_def getActiveSessionCount_def)
  show ?thesis
    using len mem
    by (simp add: terminateOldestSessions_def Let_def S_def [symmetric] cong: map_cong)
qed

lemma filter_active_deactivated:
  "filter (active_of userId)
     (map (\<lambda>s. if s \<in> D then s\<lparr>is_active := False, terminated_at := Some now\<rparr> else s) xs)
   = filter (\<lambda>s. s \<notin> D) (filter (active_of userId) xs)"
  by (induction xs) (auto simp add: active_of_def)

lemma length_filter_not_mem:
  assumes "distinct A"
  shows "length (filter (\<lambda>s. s \<notin> D) A) = card (set A - D)"
proof -
  have "{x. x \<notin> D} \<inter> set A = set A - D" by blast
  then show ?thesis
    using distinct_length_filter [OF assms, of "\<lambda>s. s \<notin> D"] by simp
qed

lemma terminate_count:
  assumes d: "distinct (map session_id (user_sessions db))"
  shows "getActiveSessionCount userId (terminateOldestSessions userId keepCount now db)
      = min keepCount (getActiveSessionCount userId db)"
proof (cases "keepCount < getActiveSessionCount userId db")
  case False
  then show ?thesis
    by (simp add: terminateOldestSessions_def getActiveSessionCount_def Let_def)
next
  case True
  let ?A = "filter (active_of userId) (user_sessions db)"
  let ?S = "rev (sort_key last_activity ?A)"
  let ?D = "drop keepCount ?S"
  have dx: "distinct (user_sessions db)" using d by (simp add: distinct_map)
  have dA: "distinct ?A" using dx by simp
  have dS: "distinct ?S" using dA by simp
  have setS: "set ?S = set ?A" by simp
  have lenS: "length ?S = length ?A" by simp
  have DA: "set ?D \<subseteq> set ?A" using set_drop_subset [of keepCount ?S] by simp
  have "filter (active_of userId) (user_sessions (terminateOldestSessions userId keepCount now db))
      = filter (\<lambda>s. s \<notin> set ?D) ?A"
    unfolding terminate_rows [OF d True] by (rule filter_active_deactivated)
  then have "getActiveSessionCount userId (terminateOldestSessions userId keepCount now db)
      = length (filter (\<lambda>s. s \<notin> set ?D) ?A)"
    by (simp add: getActiveSessionCount_def)
  also have "\<dots> = card (set ?A - set ?D)"
    using dA by (rule length_filter_not_mem)
  also have "\<dots> = card (set ?A) - card (set ?D)"
    using DA by (simp add: card_Diff_subset)
  also have "\<dots> = length ?A - length ?D"
  proof -
    have "card (set ?A) = length ?A" using dA by (rule distinct_card)
    moreover have "card (set ?D) = length ?D" using dS by (intro distinct_card distinct_drop)
    ultimately show ?thesis by (simp only:)
  qed
  also have "\<dots> = keepCount"
    using True by (simp add: getActiveSessionCount_def)
  finally show ?thesis using True by simp
qed

lemma terminate_other_rows:
  assumes d: "distinct (map session_id (user_sessions db))"
  shows "filter (\<lambda>s. user_id s \<noteq> userId) (user_sessions (terminateOldestSessions userId keepCount now db))
     = filter (\<lambda>s. user_id s \<noteq> userId) (user_sessions db)"
proof (cases "keepCount < getActiveSessionCount userId db")
  case False
  then show ?thesis
    by (simp add: terminateOldestSessions_def getActiveSessionCount_def Let_def)
next
  case True
  let ?D = "set (drop keepCount (rev (sort_key last_activity (filter (active_of userId) (user_sessions db)))))"
  have D: "\<forall>s \<in> ?D. user_id s = userId"
    using set_drop_subset [of keepCount "rev (sort_key last_activity (filter (active_of userId) (user_sessions db)))"]
    by (auto simp add: active_of_def)
  have "filter (\<lambda>s. user_id s \<noteq> userId)
          (map (\<lambda>s. if s \<in> ?D then s\<lparr>is_active := False, terminated_at := Some now\<rparr> else s) xs)
      = filter (\<lambda>s. user_id s \<noteq> userId) xs" for xs
    using D by (induction xs) auto
  then show ?thesis
    unfolding terminate_rows [OF d True] .
qed

lemma terminate_keeps_latest:
  assumes d: "distinct (map session_id (user_sessions db))"
    and s: "s \<in> set (user_sessions db)" "active_of userId s"
    and s': "s' \<in> set (user_sessions db)" "active_of userId s'"
    and gone: "session_id s \<notin> session_id ` set (filter (active_of userId)
                 (user_sessions (terminateOldestSessions userId keepCount now db)))"
    and kept: "session_id s' \<in> session_id ` set (filter (active_of userId)
                 (user_sessions (terminateOldestSessions userId keepCount now db)))"
  shows "last_activity s \<le> last_activity s'"
proof (cases "keepCount < getActiveSessionCount userId db")
  case False
  then have "terminateOldestSessions userId keepCount now db = db"
    by (simp add: terminateOldestSessions_def getActiveSessionCount_def Let_def)
  then show ?thesis using gone s by auto
next
  case True
  let ?A = "filter (active_of userId) (user_sessions db)"
  let ?S = "rev (sort_key last_activity ?A)"
  let ?D = "drop keepCount ?S"
  have inj: "inj_on session_id (set (user_sessions db))"
    using d by (simp add: distinct_map)
  have act: "filter (active_of userId) (user_sessions (terminateOldestSessions userId keepCount now db))
      = filter (\<lambda>s. s \<notin> set ?D) ?A"
    unfolding terminate_rows [OF d True] by (rule filter_active_deactivated)
  have setS: "set ?S = set (take keepCount ?S) \<union> set ?D"
    by (metis append_take_drop_id set_append)
  have sD: "s \<in> set ?D"
  proof (rule ccontr)
    assume "s \<notin> set ?D"
    then have "s \<in> set (filter (\<lambda>s. s \<notin> set ?D) ?A)" using s by simp
    then show False using gone unfolding act by blast
  qed
  from kept obtain r where r: "r \<in> set ?A" "r \<notin> set ?D" "session_id r = session_id s'"
    unfolding act by auto
  then have "r = s'" using inj s'(1) by (auto simp add: inj_on_def)
  then have "s' \<in> set ?S" "s' \<notin> set ?D" using r by simp_all
  then have s'K: "s' \<in> set (take keepCount ?S)" using setS by blast
  show ?thesis using sorted_desc_take_drop [OF s'K sD] .
qed

lemma checkAccountLockout_sessions:
  "user_sessions (snd (checkAccountLockout userId now db)) = user_sessions db"
  by (simp add: checkAccountLockout_def Let_def split: option.splits)

lemma updateLastActivity_active:
  "filter (active_of userId) (user_sessions (updateLastActivity userId ua now db))
     = map (\<lambda>s. s\<lparr>last_activity := now, user_agent := ua\<rparr>) (filter (active_of userId) (user_sessions db))"
proof -
  have "filter (active_of userId)
          (map (\<lambda>s. if active_of userId s then s\<lparr>last_activity := now, user_agent := ua\<rparr> else s) xs)
      = map (\<lambda>s. s\<lparr>last_activity := now, user_agent := ua\<rparr>) (filter (active_of userId) xs)" for xs
    by (induction xs) (auto simp add: active_of_def)
  then show ?thesis by (simp add: updateLastActivity_def)
qed

lemma updateLastActivity_other_rows:
  "filter (\<lambda>s. user_id s \<noteq> userId) (user_sessions (updateLastActivity userId ua now db))
     = filter (\<lambda>s. user_id s \<noteq> userId) (user_sessions db)"
proof -
  have "filter (\<lambda>s. user_id s \<noteq> userId)
          (map (\<lambda>s. if active_of userId s then s\<lparr>last_activity := now, user_agent := ua\<rparr> else s) xs)
      = filter (\<lambda>s. user_id s \<noteq> userId) xs" for xs
    by (induction xs) (auto simp add: active_of_def)
  then show ?thesis by (simp add: updateLastActivity_def)
qed

lemma checkAuth_sessions:
  assumes "\<not> locked (fst (checkAccountLockout uid now db))"
  shows "user_sessions (snd (checkAuth (Some (uid, signin)) ua now db))
     = user_sessions (updateLastActivity uid (case ua of None \<Rightarrow> [] | Some a \<Rightarrow> a) now
         (terminateOldestSessions uid 5 now db))"
proof -
  obtain st db1 where l: "checkAccountLockout uid now db = (st, db1)" by (cases "checkAccountLockout uid now db")
  have db1: "user_sessions db1 = user_sessions db"
    using checkAccountLockout_sessions [of uid now db] l by simp
  have same: "user_sessions (terminateOldestSessions uid 5 now db1) = user_sessions (terminateOldestSessions uid 5 now db)"
    using db1 by (simp add: terminateOldestSessions_def Let_def)
  have noop: "\<not> 5 < getActiveSessionCount uid db1 \<Longrightarrow> terminateOldestSessions uid 5 now db1 = db1"
    by (simp add: terminateOldestSessions_def getActiveSessionCount_def Let_def)
  show ?thesis
    using assms l same noop
    by (auto simp add: checkAuth_def Let_def maxConcurrentSessions_def updateLastActivity_def)
qed

text \<open>
  Claim C5 (amended). The cap is restored by \<open>checkAuth\<close>, and only for an authenticated
  account that is not locked: such a call leaves \<open>min 5 n\<close> of the account's \<open>n\<close> active
  sessions active (session ids being unique), so at most 5, and exactly 5 when there were
  6. Every session it deactivates was active no later than every session it keeps, so the
  least recently active go first; sessions of other accounts are untouched.
\<close>

theorem session_cap:
  assumes d: "distinct (map session_id (user_sessions db))"
    and unlocked: "\<not> locked (fst (checkAccountLockout uid now db))"
  shows "getActiveSessionCount uid (snd (checkAuth (Some (uid, signin)) ua now db))
           = min 5 (getActiveSessionCount uid db)
       \<and> (\<forall>s \<in> set (user_sessions db). \<forall>s' \<in> set (user_sessions db).
            active_of uid s \<and> active_of uid s'
            \<and> session_id s \<notin> active_ids uid (snd (checkAuth (Some (uid, signin)) ua now db))
            \<and> session_id s' \<in> active_ids uid (snd (checkAuth (Some (uid, signin)) ua now db))
            \<longrightarrow> last_activity s \<le> last_activity s')
       \<and> filter (\<lambda>s. user_id s \<noteq> uid) (user_sessions (snd (checkAuth (Some (uid, signin)) ua now db)))
           = filter (\<lambda>s. user_id s \<noteq> uid) (user_sessions db)"
proof -
  let ?ua = "case ua of None \<Rightarrow> [] | Some a \<Rightarrow> a"
  let ?db2 = "terminateOldestSessions uid 5 now db"
  let ?db' = "snd (checkAuth (Some (uid, signin)) ua now db)"
  have rows: "user_sessions ?db' = user_sessions (updateLastActivity uid ?ua now ?db2)"
    using checkAuth_sessions [OF unlocked] by simp
  have act: "filter (active_of uid) (user_sessions ?db')
      = map (\<lambda>s. s\<lparr>last_activity := now, user_agent := ?ua\<rparr>) (filter (active_of uid) (user_sessions ?db2))"
    unfolding rows by (rule updateLastActivity_active)
  have A: "getActiveSessionCount uid ?db' = min 5 (getActiveSessionCount uid db)"
    using terminate_count [OF d, of uid 5 now] act by (simp add: getActiveSessionCount_def)
  have ids: "active_ids uid ?db' = session_id ` set (filter (active_of uid) (user_sessions ?db2))"
    unfolding active_ids_def act by (simp add: image_image)
  have B: "\<forall>s \<in> set (user_sessions db). \<forall>s' \<in> set (user_sessions db).
      active_of uid s \<and> active_of uid s'
      \<and> session_id s \<notin> active_ids uid ?db' \<and> session_id s' \<in> active_ids uid ?db'
      \<longrightarrow> last_activity s \<le> last_activity s'"
    unfolding ids using terminate_keeps_latest [OF d] by blast
  have C: "filter (\<lambda>s. user_id s \<noteq> uid) (user_sessions ?db')
      = filter (\<lambda>s. user_id s \<noteq> uid) (user_sessions db)"
    unfolding rows updateLastActivity_other_rows by (rule terminate_other_rows [OF d])
  from A B C show ?thesis by blast
qed

theorem session_cap_witness:
  "getActiveSessionCount ''u1'' six_sessions_db = 6
   \<and> getActiveSessionCount ''u1''
        (snd (checkAuth (Some (''u1'', Some 0)) (Some ''ua'') 1000 six_sessions_db)) = 5
   \<and> map is_active (user_sessions
        (snd (checkAuth (Some (''u1'', Some 0)) (Some ''ua'') 1000 six_sessions_db)))
       = [True, False, True, True, True, True, True]"
proof -
  let ?db = "six_sessions_db"
  have d: "distinct (map session_id (user_sessions ?db))"
    by (simp add: six_sessions_db_def mk_session_def)
  have u: "\<not> locked (fst (checkAccountLockout ''u1'' 1000 ?db))"
    by (simp add: checkAccountLockout_def six_sessions_db_def)
  have n: "getActiveSessionCount ''u1'' ?db = 6"
    by (simp add: getActiveSessionCount_def six_sessions_db_def mk_session_def
        active_of_def)
  have r: "map is_active (user_sessions
        (snd (checkAuth (Some (''u1'', Some 0)) (Some ''ua'') 1000 ?db)))
       = [True, False, True, True, True, True, True]"
    by (simp add: checkAuth_def checkAccountLockout_def getActiveSessionCount_def
        terminateOldestSessions_def updateLastActivity_def six_sessions_db_def
        mk_session_def active_of_def maxConcurrentSessions_def Let_def)
  from session_cap [OF d u, of "Some 0" "Some ''ua''"] n r show ?thesis
    by simp
qed

text \<open>
  Claim C5 as worded fails: the cap is no invariant of the table. Six sessions of one
  account are active until a \<open>checkAuth\<close> call deactivates one, so a new session is not
  what triggers the cap; and for a locked account \<open>checkAuth\<close> returns before the count is
  taken, so all six stay active. Evaluated at 1000 ms, the account being locked until
  900000 ms:
\<close>

theorem session_cap_not_enforced_when_locked:
  "getActiveSessionCount ''u1'' six_sessions_locked_db = 6
   \<and> fst (checkAuth (Some (''u1'', Some 0)) (Some ''ua'') 1000 six_sessions_locked_db)
       = \<lparr>authenticated = False, sessionValid = False, requiresReauth = False,
          locked_minutes = Some 15\<rparr>
   \<and> getActiveSessionCount ''u1''
        (snd (checkAuth (Some (''u1'', Some 0)) (Some ''ua'') 1000 six_sessions_locked_db)) = 6
   \<and> getActiveSessionCount ''u1'' (snd (checkAuth None (Some ''ua'') 1000 six_sessions_db)) = 6"
  by (simp add: checkAuth_def checkAccountLockout_def getActiveSessionCount_def date_getTime_def
      six_sessions_locked_db_def six_sessions_db_def mk_session_def active_of_def Let_def)

section \<open>Word facts\<close>

lemma or_eq_add_small:
  fixes x y :: int
  assumes "0 \<le> y" "y < 2 ^ n"
  shows "push_bit n x OR y = push_bit n x + y"
proof -
  have "y = take_bit n y" using assms by (simp add: take_bit_int_eq_self)
  then have "push_bit n x OR y = concat_bit n y x"
    by (metis concat_bit_def or.commute)
  also have "\<dots> = take_bit n y + push_bit n x" by (rule concat_bit_eq)
  finally show ?thesis using \<open>y = take_bit n y\<close> by simp
qed

lemma uint_ucast_and_mask:
  fixes a :: "8 word"
  assumes "n \<le> 8"
  shows "uint (ucast a AND mask n :: 32 word) = take_bit n (uint a)"
proof -
  have "uint (ucast a :: 32 word) = uint a"
    by (simp add: uint_up_ucast is_up)
  then show ?thesis
    using assms by (simp add: and_mask_bintr uint_word_of_int_eq min_def)
qed

lemma push_bit_bound:
  fixes k :: int
  assumes "k < 2 ^ (32 - n)" and "n \<le> 32"
  shows "push_bit n k < 2 ^ 32"
proof -
  have "k * 2 ^ n < 2 ^ (32 - n) * 2 ^ n" using assms(1) by simp
  also have "\<dots> = 2 ^ 32" using assms(2) by (simp flip: power_add)
  finally show ?thesis by (simp add: push_bit_eq_mult)
qed

lemma uint_push_bit_small:
  fixes w :: "32 word"
  assumes "uint w < 2 ^ (32 - n)" and "n \<le> 32"
  shows "uint (push_bit n w) = push_bit n (uint w)"
  using push_bit_bound [OF assms]
  by (simp add: unsigned_push_bit_eq take_bit_int_eq_self)

lemma trunc_uint:
  fixes a b c d :: "8 word"
  shows "uint (push_bit 24 (ucast a AND 0x7f) OR push_bit 16 (ucast b AND 0xff)
          OR push_bit 8 (ucast c AND 0xff) OR (ucast d AND 0xff) :: 32 word)
       = (uint a mod 128) * 2 ^ 24 + uint b * 2 ^ 16 + uint c * 2 ^ 8 + uint d"
proof -
  have m7: "(0x7f :: 32 word) = mask 7" and m8: "(0xff :: 32 word) = mask 8"
    by (simp_all add: mask_eq_exp_minus_1)
  have A: "uint (ucast a AND 0x7f :: 32 word) = uint a mod 128"
    unfolding m7 by (simp add: uint_ucast_and_mask take_bit_eq_mod)
  have bx: "0 \<le> uint x \<and> uint x < 256" for x :: "8 word"
    using uint_lt2p [of x] by simp
  have B: "uint (ucast x AND 0xff :: 32 word) = uint x" for x :: "8 word"
    unfolding m8 using bx [of x] by (simp add: uint_ucast_and_mask take_bit_eq_mod)
  have PA: "uint (push_bit 24 (ucast a AND 0x7f :: 32 word)) = push_bit 24 (uint a mod 128)"
    by (subst uint_push_bit_small) (simp_all add: A)
  have PB: "uint (push_bit 16 (ucast b AND 0xff :: 32 word)) = push_bit 16 (uint b)"
    using bx [of b] by (subst uint_push_bit_small) (simp_all add: B)
  have PC: "uint (push_bit 8 (ucast c AND 0xff :: 32 word)) = push_bit 8 (uint c)"
    using bx [of c] by (subst uint_push_bit_small) (simp_all add: B)
  have "uint (push_bit 24 (ucast a AND 0x7f) OR push_bit 16 (ucast b AND 0xff)
          OR push_bit 8 (ucast c AND 0xff) OR (ucast d AND 0xff) :: 32 word)
      = push_bit 24 (uint a mod 128) OR push_bit 16 (uint b) OR push_bit 8 (uint c) OR uint d"
    by (simp only: uint_or PA PB PC B)
  also have "\<dots> = push_bit 8 (push_bit 8 (push_bit 8 (uint a mod 128) OR uint b) OR uint c) OR uint d"
    by (simp add: push_bit_or push_bit_push_bit or.assoc)
  also have "\<dots> = push_bit 8 (push_bit 8 (push_bit 8 (uint a mod 128) + uint b) + uint c) + uint d"
    using bx [of b] bx [of c] bx [of d] by (simp add: or_eq_add_small)
  also have "\<dots> = (uint a mod 128) * 2 ^ 24 + uint b * 2 ^ 16 + uint c * 2 ^ 8 + uint d"
    by (simp add: push_bit_eq_mult)
  finally show ?thesis .
qed


section \<open>Base32 codec\<close>

lemma be_val_snoc: "be_val (bs @ [b]) = be_val bs * 256 + uint b"
  by (simp add: be_val_def)

lemma idx_val_snoc: "idx_val (cs @ [c]) = idx_val cs * 32 + int (the (indexOf BASE32_ALPHABET c))"
  by (simp add: idx_val_def)

text \<open>Word facts, as statements about the unsigned value.\<close>

lemma take_bit_shl_or:
  fixes v w :: "32 word"
  assumes "uint w < 2 ^ n" and "k + n \<le> 32"
  shows "take_bit (k + n) (uint (push_bit n v OR w)) = push_bit n (take_bit k (uint v)) + uint w"
proof -
  have w: "take_bit (k + n) (uint w) = uint w"
  proof -
    have "(2::int) ^ n \<le> 2 ^ (k + n)" by simp
    then have "uint w < 2 ^ (k + n)" using assms(1) by linarith
    then show ?thesis by (simp add: take_bit_int_eq_self)
  qed
  have "take_bit (k + n) (uint (push_bit n v OR w))
      = take_bit (k + n) (take_bit 32 (push_bit n (uint v))) OR take_bit (k + n) (uint w)"
    by (simp add: uint_or unsigned_push_bit_eq take_bit_or del: take_bit_take_bit)
  also have "take_bit (k + n) (take_bit 32 (push_bit n (uint v))) = take_bit (k + n) (push_bit n (uint v))"
    using assms(2) by (simp add: min_def)
  also have "\<dots> = push_bit n (take_bit k (uint v))"
    by (simp add: take_bit_push_bit)
  finally show ?thesis
    unfolding w using assms(1) by (simp add: or_eq_add_small)
qed

lemma uint_shr_and_mask:
  fixes v :: "32 word"
  assumes "j \<le> 32"
  shows "uint (drop_bit s v AND mask j) = drop_bit s (take_bit (j + s) (uint v))"
proof -
  have "uint (drop_bit s v AND mask j) = take_bit j (uint (drop_bit s v))"
    using assms by (simp add: and_mask_bintr uint_word_of_int_eq min_def take_bit_int_eq_self)
  also have "\<dots> = take_bit j (drop_bit s (uint v))"
  proof -
    have "take_bit 32 (uint v) = uint v"
      using uint_lt2p [of v] by (simp add: take_bit_int_eq_self)
    then show ?thesis by (simp add: unsigned_drop_bit_eq)
  qed
  also have "\<dots> = drop_bit s (take_bit (j + s) (uint v))"
    by (simp add: drop_bit_take_bit)
  finally show ?thesis .
qed

text \<open>The alphabet.\<close>

lemma indexOf_nth: "distinct xs \<Longrightarrow> i < length xs \<Longrightarrow> indexOf xs (xs ! i) = Some i"
proof (induction xs arbitrary: i)
  case Nil
  then show ?case by simp
next
  case (Cons x xs)
  then show ?case by (cases i) auto
qed

lemma indexOf_None: "indexOf xs c = None \<longleftrightarrow> c \<notin> set xs"
  by (induction xs) auto

lemma indexOf_less: "indexOf xs c = Some i \<Longrightarrow> i < length xs"
  by (induction xs arbitrary: i) (auto split: if_splits)

lemma alphabet_units:
  "BASE32_ALPHABET =
     [0x41, 0x42, 0x43, 0x44, 0x45, 0x46, 0x47, 0x48, 0x49, 0x4A, 0x4B, 0x4C, 0x4D, 0x4E, 0x4F, 0x50,
      0x51, 0x52, 0x53, 0x54, 0x55, 0x56, 0x57, 0x58, 0x59, 0x5A, 0x32, 0x33, 0x34, 0x35, 0x36, 0x37]"
  by (simp add: BASE32_ALPHABET_def js_def js_char_def)

lemma distinct_alphabet: "distinct BASE32_ALPHABET"
  unfolding alphabet_units by simp

lemma length_alphabet: "length BASE32_ALPHABET = 32"
  by (simp add: BASE32_ALPHABET_def js_def)

lemma uint_and_31: "uint (w AND 31 :: 32 word) < 32" "unat (w AND 31 :: 32 word) < 32"
proof -
  have "unat (w AND 31) \<le> unat (31 :: 32 word)"
    by (rule word_and_le1 [THEN word_le_nat_alt [THEN iffD1]])
  then show u: "unat (w AND 31 :: 32 word) < 32" by simp
  have "uint (w AND 31) = int (unat (w AND 31))" by (rule uint_nat)
  then show "uint (w AND 31 :: 32 word) < 32" using u by linarith
qed

lemma alphabet_at_mem: "alphabet_at (w AND 31) \<in> set BASE32_ALPHABET"
  using uint_and_31(2) [of w] by (simp add: alphabet_at_def length_alphabet)

lemma indexOf_alphabet_at:
  "indexOf BASE32_ALPHABET (alphabet_at (w AND 31)) = Some (unat (w AND 31))"
  unfolding alphabet_at_def
  by (rule indexOf_nth [OF distinct_alphabet]) (simp add: length_alphabet uint_and_31)

lemma idx_val_alphabet_at:
  "idx_val (cs @ [alphabet_at (w AND 31)]) = idx_val cs * 32 + uint (w AND 31)"
  by (simp add: idx_val_snoc indexOf_alphabet_at)


text \<open>Regrouping a bit string: its top part, shifted back, plus its low part.\<close>

lemma regroup:
  fixes V :: int
  assumes "s \<le> k"
  shows "drop_bit s (take_bit k V) * 2 ^ s + take_bit s V = take_bit k V"
proof -
  have "take_bit s V = take_bit s (take_bit k V)"
    using assms by (simp add: min_def)
  then show ?thesis
    using bits_ident [of s "take_bit k V"] by (simp add: push_bit_eq_mult)
qed

text \<open>The encoder keeps the number read so far: the characters written, then the pending bits.\<close>

lemma encode_while_inv:
  assumes "bits \<le> 32"
  shows "case encode_while (bits, v, out) of (bits', v', out') \<Rightarrow>
           bits' < 5 \<and> v' = v
           \<and> bits' + 5 * length out' = bits + 5 * length out
           \<and> idx_val out' * 2 ^ bits' + take_bit bits' (uint v)
               = idx_val out * 2 ^ bits + take_bit bits (uint v)
           \<and> set out' \<subseteq> set out \<union> set BASE32_ALPHABET"
  using assms
proof (induction "(bits, v, out)" arbitrary: bits out rule: encode_while.induct)
  case (1 bits out)
  show ?case
  proof (cases "bits \<ge> 5")
    case False
    then show ?thesis by (simp add: encode_while.simps)
  next
    case True
    let ?c = "js_shr v (bits - 5) AND 31"
    let ?out1 = "out @ [alphabet_at ?c]"
    have sh: "(bits - 5) mod 32 = bits - 5" using "1.prems" by simp
    have "(31 :: 32 word) = mask 5" by (simp add: mask_eq_exp_minus_1)
    then have c: "uint ?c = drop_bit (bits - 5) (take_bit bits (uint v))"
      using True uint_shr_and_mask [of 5 "bits - 5" v] by (simp add: js_shr_def sh)
    have "idx_val ?out1 * 2 ^ (bits - 5) + take_bit (bits - 5) (uint v)
        = idx_val out * (32 * 2 ^ (bits - 5))
          + (drop_bit (bits - 5) (take_bit bits (uint v)) * 2 ^ (bits - 5) + take_bit (bits - 5) (uint v))"
      by (simp add: idx_val_alphabet_at c algebra_simps)
    also have "(32 :: int) * 2 ^ (bits - 5) = 2 ^ bits"
    proof -
      have "(2 :: int) ^ bits = 2 ^ (5 + (bits - 5))" using True by simp
      also have "\<dots> = 2 ^ 5 * 2 ^ (bits - 5)" by (rule power_add)
      finally show ?thesis by simp
    qed
    finally have q: "idx_val ?out1 * 2 ^ (bits - 5) + take_bit (bits - 5) (uint v)
        = idx_val out * 2 ^ bits + take_bit bits (uint v)"
      by (simp add: regroup)
    have ih: "case encode_while (bits - 5, v, ?out1) of (bits', v', out') \<Rightarrow>
           bits' < 5 \<and> v' = v
           \<and> bits' + 5 * length out' = bits - 5 + 5 * length ?out1
           \<and> idx_val out' * 2 ^ bits' + take_bit bits' (uint v)
               = idx_val ?out1 * 2 ^ (bits - 5) + take_bit (bits - 5) (uint v)
           \<and> set out' \<subseteq> set ?out1 \<union> set BASE32_ALPHABET"
      using "1.hyps" [OF True] "1.prems" by simp
    have unfold: "encode_while (bits, v, out) = encode_while (bits - 5, v, ?out1)"
      using True by (simp add: encode_while.simps [of bits])
    show ?thesis
      unfolding unfold using ih True alphabet_at_mem [of "js_shr v (bits - 5)"]
      by (auto simp add: q split: prod.splits)
  qed
qed

lemma encode_step_inv:
  assumes "bits < 5"
  shows "case encode_step b (bits, v, out) of (bits', v', out') \<Rightarrow>
           bits' < 5
           \<and> bits' + 5 * length out' = bits + 5 * length out + 8
           \<and> idx_val out' * 2 ^ bits' + take_bit bits' (uint v')
               = (idx_val out * 2 ^ bits + take_bit bits (uint v)) * 256 + uint b
           \<and> set out' \<subseteq> set out \<union> set BASE32_ALPHABET"
proof -
  let ?v1 = "js_shl v 8 OR ucast b"
  have ub: "uint (ucast b :: 32 word) = uint b"
    by (simp add: uint_up_ucast is_up)
  have "uint b < 2 ^ 8" using uint_lt2p [of b] by simp
  then have "take_bit (bits + 8) (uint ?v1) = push_bit 8 (take_bit bits (uint v)) + uint b"
    using assms take_bit_shl_or [of "ucast b" 8 bits v] by (simp add: js_shl_def ub)
  then have q: "idx_val out * 2 ^ (bits + 8) + take_bit (bits + 8) (uint ?v1)
      = (idx_val out * 2 ^ bits + take_bit bits (uint v)) * 256 + uint b"
    by (simp add: push_bit_eq_mult power_add algebra_simps)
  have "bits + 8 \<le> 32" using assms by simp
  from encode_while_inv [OF this, of ?v1 out] q show ?thesis
    by (auto simp add: encode_step_def split: prod.splits)
qed

lemma encode_fold_inv:
  assumes "bits < 5"
  shows "case fold encode_step bs (bits, v, out) of (bits', v', out') \<Rightarrow>
           bits' < 5
           \<and> bits' + 5 * length out' = bits + 5 * length out + 8 * length bs
           \<and> idx_val out' * 2 ^ bits' + take_bit bits' (uint v')
               = foldl (\<lambda>a b. a * 256 + uint b) (idx_val out * 2 ^ bits + take_bit bits (uint v)) bs
           \<and> set out' \<subseteq> set out \<union> set BASE32_ALPHABET"
  using assms
proof (induction bs arbitrary: bits v out)
  case Nil
  then show ?case by simp
next
  case (Cons b bs)
  obtain bits1 v1 out1 where st: "encode_step b (bits, v, out) = (bits1, v1, out1)"
    by (cases "encode_step b (bits, v, out)")
  from encode_step_inv [OF Cons.prems, where b = b and v = v and out = out] st
  have 1: "bits1 < 5" "bits1 + 5 * length out1 = bits + 5 * length out + 8"
    "idx_val out1 * 2 ^ bits1 + take_bit bits1 (uint v1)
       = (idx_val out * 2 ^ bits + take_bit bits (uint v)) * 256 + uint b"
    "set out1 \<subseteq> set out \<union> set BASE32_ALPHABET"
    by simp_all
  from Cons.IH [OF 1(1), where v = v1 and out = out1] 1 show ?case
    by (auto simp add: st split: prod.splits)
qed

text \<open>The decoder keeps the number read so far: the bytes written, then the pending bits.\<close>

lemma decode_step_inv:
  assumes "bits < 8" and "c \<in> set BASE32_ALPHABET"
  shows "case decode_step c (bits, v, bytes) of (bits', v', bytes') \<Rightarrow>
           bits' < 8
           \<and> bits' + 8 * length bytes' = bits + 8 * length bytes + 5
           \<and> be_val bytes' * 2 ^ bits' + take_bit bits' (uint v')
               = (be_val bytes * 2 ^ bits + take_bit bits (uint v)) * 32
                 + int (the (indexOf BASE32_ALPHABET c))"
proof -
  obtain idx where idx: "indexOf BASE32_ALPHABET c = Some idx"
    using assms(2) indexOf_None [of BASE32_ALPHABET c] by (cases "indexOf BASE32_ALPHABET c") auto
  then have lt: "idx < 32" using indexOf_less [of BASE32_ALPHABET c idx] by (simp add: length_alphabet)
  let ?v1 = "js_shl v 5 OR of_nat idx"
  have ui: "uint (of_nat idx :: 32 word) = int idx"
    using lt by (simp add: unsigned_of_nat take_bit_nat_eq_self)
  have "take_bit (bits + 5) (uint ?v1) = push_bit 5 (take_bit bits (uint v)) + int idx"
    using assms(1) lt take_bit_shl_or [of "of_nat idx" 5 bits v] by (simp add: js_shl_def ui)
  then have q: "be_val bytes * 2 ^ (bits + 5) + take_bit (bits + 5) (uint ?v1)
      = (be_val bytes * 2 ^ bits + take_bit bits (uint v)) * 32 + int idx"
    by (simp add: push_bit_eq_mult power_add algebra_simps)
  show ?thesis
  proof (cases "bits + 5 \<ge> 8")
    case False
    then show ?thesis
      using q assms(1) by (simp add: decode_step_def idx Let_def)
  next
    case True
    define s where "s = bits + 5 - 8"
    let ?byte = "ucast (js_shr ?v1 s AND 0xff) :: byte"
    have sh: "s mod 32 = s" using assms(1) by (simp add: s_def)
    have m8: "(0xff :: 32 word) = mask 8" by (simp add: mask_eq_exp_minus_1)
    have eq: "8 + s = bits + 5" and le: "s \<le> bits + 5" using True by (simp_all add: s_def)
    have w: "uint (js_shr ?v1 s AND 0xff) = drop_bit s (take_bit (bits + 5) (uint ?v1))"
      unfolding m8 js_shr_def sh using uint_shr_and_mask [of 8 s ?v1] by (simp only: eq)
    have "uint (js_shr ?v1 s AND 0xff) < 2 ^ 8"
      unfolding m8 by (rule and_mask_lt_2p)
    then have "uint ?byte = uint (js_shr ?v1 s AND 0xff)"
      by (simp add: unsigned_ucast_eq take_bit_int_eq_self)
    then have b: "uint ?byte = drop_bit s (take_bit (bits + 5) (uint ?v1))"
      by (simp only: w)
    have p: "(256 :: int) * 2 ^ s = 2 ^ (bits + 5)"
    proof -
      have "(2 :: int) ^ (bits + 5) = 2 ^ (8 + s)" by (simp only: eq)
      also have "\<dots> = 2 ^ 8 * 2 ^ s" by (rule power_add)
      finally show ?thesis by simp
    qed
    have "be_val (bytes @ [?byte]) * 2 ^ s + take_bit s (uint ?v1)
        = be_val bytes * (256 * 2 ^ s)
          + (drop_bit s (take_bit (bits + 5) (uint ?v1)) * 2 ^ s + take_bit s (uint ?v1))"
      by (simp add: be_val_snoc b algebra_simps)
    also have "\<dots> = be_val bytes * 2 ^ (bits + 5) + take_bit (bits + 5) (uint ?v1)"
      unfolding p by (simp only: regroup [OF le])
    finally have r: "be_val (bytes @ [?byte]) * 2 ^ s + take_bit s (uint ?v1)
        = (be_val bytes * 2 ^ bits + take_bit bits (uint v)) * 32 + int idx"
      using q by simp
    have "decode_step c (bits, v, bytes) = (s, ?v1, bytes @ [?byte])"
      using True by (simp add: decode_step_def idx Let_def s_def)
    then show ?thesis
      using r assms(1) True by (simp add: s_def idx)
  qed
qed

lemma decode_fold_inv:
  assumes "bits < 8" and "set cs \<subseteq> set BASE32_ALPHABET"
  shows "case fold decode_step cs (bits, v, bytes) of (bits', v', bytes') \<Rightarrow>
           bits' < 8
           \<and> bits' + 8 * length bytes' = bits + 8 * length bytes + 5 * length cs
           \<and> be_val bytes' * 2 ^ bits' + take_bit bits' (uint v')
               = foldl (\<lambda>a c. a * 32 + int (the (indexOf BASE32_ALPHABET c)))
                   (be_val bytes * 2 ^ bits + take_bit bits (uint v)) cs"
  using assms
proof (induction cs arbitrary: bits v bytes)
  case Nil
  then show ?case by simp
next
  case (Cons c cs)
  obtain bits1 v1 bytes1 where st: "decode_step c (bits, v, bytes) = (bits1, v1, bytes1)"
    by (cases "decode_step c (bits, v, bytes)")
  have c: "c \<in> set BASE32_ALPHABET" and cs: "set cs \<subseteq> set BASE32_ALPHABET"
    using Cons.prems(2) by simp_all
  from decode_step_inv [OF Cons.prems(1) c, where v = v and bytes = bytes] st
  have 1: "bits1 < 8" "bits1 + 8 * length bytes1 = bits + 8 * length bytes + 5"
    "be_val bytes1 * 2 ^ bits1 + take_bit bits1 (uint v1)
       = (be_val bytes * 2 ^ bits + take_bit bits (uint v)) * 32
         + int (the (indexOf BASE32_ALPHABET c))"
    by simp_all
  from Cons.IH [OF 1(1) cs, where v = v1 and bytes = bytes1] 1 show ?case
    by (auto simp add: st split: prod.splits)
qed

text \<open>A byte string is determined by its length and its number.\<close>

lemma be_val_inject:
  assumes "length xs = length ys" and "be_val xs = be_val ys"
  shows "xs = ys"
  using assms
proof (induction xs arbitrary: ys rule: rev_induct)
  case Nil
  then show ?case by simp
next
  case (snoc x xs)
  then obtain y ys' where ys: "ys = ys' @ [y]"
    by (cases ys rule: rev_cases) auto
  have bx: "0 \<le> uint x \<and> uint x < 256" and by': "0 \<le> uint y \<and> uint y < 256"
    using uint_lt2p [of x] uint_lt2p [of y] by simp_all
  have e: "be_val xs * 256 + uint x = be_val ys' * 256 + uint y"
    using snoc.prems(2) by (simp add: ys be_val_snoc)
  have "(be_val xs * 256 + uint x) div 256 = be_val xs"
    and "(be_val ys' * 256 + uint y) div 256 = be_val ys'"
    using bx by' by simp_all
  then have "be_val xs = be_val ys'" using e by simp
  moreover from e this have "uint x = uint y" by simp
  then have "x = y" by (simp add: word_uint_eq_iff)
  ultimately show ?case
    using snoc.IH [of ys'] snoc.prems(1) by (simp add: ys)
qed

text \<open>Characters outside the alphabet do not move the decoder.\<close>

lemma decode_step_skip: "c \<notin> set BASE32_ALPHABET \<Longrightarrow> decode_step c st = st"
  using indexOf_None [of BASE32_ALPHABET c] by (cases st) (simp add: decode_step_def)

lemma decode_fold_filter:
  "fold decode_step cs st = fold decode_step (filter (\<lambda>c. c \<in> set BASE32_ALPHABET) cs) st"
  by (induction cs arbitrary: st) (simp_all add: decode_step_skip)

lemma strip_padding_replicate: "strip_padding (s @ replicate n (js_char CHR ''='')) = strip_padding s"
  by (simp add: strip_padding_def dropWhile_append)

lemma strip_padding_decomp: "\<exists>n. s = strip_padding s @ replicate n (js_char CHR ''='')"
proof -
  let ?e = "js_char CHR ''=''"
  have "rev s = takeWhile (\<lambda>c. c = ?e) (rev s) @ dropWhile (\<lambda>c. c = ?e) (rev s)"
    by simp
  moreover have "takeWhile (\<lambda>c. c = ?e) (rev s)
      = replicate (length (takeWhile (\<lambda>c. c = ?e) (rev s))) ?e"
    by (rule replicate_length_same [symmetric]) (auto dest: set_takeWhileD)
  ultimately have "rev (rev s) = rev (replicate (length (takeWhile (\<lambda>c. c = ?e) (rev s))) ?e
      @ dropWhile (\<lambda>c. c = ?e) (rev s))"
    by simp
  then show ?thesis
    by (auto simp add: strip_padding_def simp del: takeWhile_dropWhile_id)
qed

lemma eq_not_alphabet: "js_char CHR ''='' \<notin> set BASE32_ALPHABET"
  unfolding alphabet_units by (simp add: js_char_def)

lemma filter_strip_padding:
  "filter (\<lambda>c. c \<in> set BASE32_ALPHABET) (strip_padding s) = filter (\<lambda>c. c \<in> set BASE32_ALPHABET) s"
proof -
  obtain n where "s = strip_padding s @ replicate n (js_char CHR ''='')"
    using strip_padding_decomp by blast
  then have "filter (\<lambda>c. c \<in> set BASE32_ALPHABET) s
      = filter (\<lambda>c. c \<in> set BASE32_ALPHABET) (strip_padding s @ replicate n (js_char CHR ''=''))"
    by simp
  then show ?thesis
    by (simp add: eq_not_alphabet)
qed

text \<open>The decoder acts on the alphabet characters of the upper-cased input, and on nothing
  else.\<close>

lemma base32Decode_alphabet_chars:
  "base32Decode upper input = snd (snd (fold decode_step (alphabet_chars upper input) (0, 0, [])))"
proof -
  have "fold decode_step (strip_padding (upper input)) (0, 0, [])
      = fold decode_step (alphabet_chars upper input) (0, 0, [])"
    by (subst decode_fold_filter) (simp add: filter_strip_padding alphabet_chars_def)
  then show ?thesis
    by (simp add: base32Decode_def split_def)
qed

lemma alphabet_chars_id:
  "set cs \<subseteq> set BASE32_ALPHABET \<Longrightarrow> upper cs = cs \<Longrightarrow> alphabet_chars upper cs = cs"
  by (auto simp add: alphabet_chars_def intro: filter_True)

text \<open>What \<open>base32Encode\<close> writes: only alphabet characters, whose number is the number of
  the bytes followed by \<open>p\<close> zero bits, \<open>p < 5\<close>.\<close>

lemma base32Encode_value:
  "\<exists>p < 5. set (base32Encode bs) \<subseteq> set BASE32_ALPHABET
       \<and> 5 * length (base32Encode bs) = 8 * length bs + p
       \<and> idx_val (base32Encode bs) = be_val bs * 2 ^ p"
proof -
  obtain k v out where st: "fold encode_step bs (0, 0, []) = (k, v, out)"
    by (cases "fold encode_step bs (0, 0, [])")
  from encode_fold_inv [where bits = 0 and v = 0 and out = "[]" and bs = bs] st
  have k: "k < 5" and len: "k + 5 * length out = 8 * length bs"
    and q: "idx_val out * 2 ^ k + take_bit k (uint v) = be_val bs"
    and sub: "set out \<subseteq> set BASE32_ALPHABET"
    by (simp_all add: idx_val_def be_val_def)
  show ?thesis
  proof (cases "k > 0")
    case False
    then have "base32Encode bs = out" by (simp add: base32Encode_def st)
    then show ?thesis
      using False q len sub by (intro exI [of _ 0]) simp
  next
    case True
    let ?c = "js_shl v (5 - k) AND 31"
    have enc: "base32Encode bs = out @ [alphabet_at ?c]"
      using True by (simp add: base32Encode_def st)
    have m5: "(31 :: 32 word) = mask 5" by (simp add: mask_eq_exp_minus_1)
    have "uint (push_bit (5 - k) v AND mask 5) = take_bit 5 (push_bit (5 - k) (uint v))"
      by (simp add: and_mask_bintr uint_word_of_int_eq unsigned_push_bit_eq min_def)
    then have "uint ?c = take_bit 5 (push_bit (5 - k) (uint v))"
      using k by (simp only: js_shl_def m5) simp
    also have "\<dots> = push_bit (5 - k) (take_bit k (uint v))"
      using k True by (simp add: take_bit_push_bit)
    finally have c: "uint ?c = take_bit k (uint v) * 2 ^ (5 - k)"
      by (simp add: push_bit_eq_mult)
    have p: "(32 :: int) = 2 ^ k * 2 ^ (5 - k)"
    proof -
      have "(2 :: int) ^ 5 = 2 ^ (k + (5 - k))" using k by simp
      also have "\<dots> = 2 ^ k * 2 ^ (5 - k)" by (rule power_add)
      finally show ?thesis by simp
    qed
    have "idx_val (base32Encode bs) = idx_val out * 32 + take_bit k (uint v) * 2 ^ (5 - k)"
      by (simp add: enc idx_val_alphabet_at c)
    also have "\<dots> = (idx_val out * 2 ^ k + take_bit k (uint v)) * 2 ^ (5 - k)"
      by (subst p) (simp add: algebra_simps)
    finally have val: "idx_val (base32Encode bs) = be_val bs * 2 ^ (5 - k)"
      by (simp add: q)
    show ?thesis
      using True k len sub val alphabet_at_mem [of "js_shl v (5 - k)"]
      by (intro exI [of _ "5 - k"]) (auto simp add: enc)
  qed
qed

lemma decode_alphabet_string:
  assumes "set cs \<subseteq> set BASE32_ALPHABET" and "upper cs = cs"
  shows "\<exists>m < 8. \<exists>t. 0 \<le> t \<and> t < 2 ^ m
       \<and> m + 8 * length (base32Decode upper cs) = 5 * length cs
       \<and> be_val (base32Decode upper cs) * 2 ^ m + t = idx_val cs"
proof -
  obtain m u dec where st: "fold decode_step cs (0, 0, []) = (m, u, dec)"
    by (cases "fold decode_step cs (0, 0, [])")
  from decode_fold_inv [where bits = 0 and v = 0 and bytes = "[]", OF _ assms(1)] st
  have "m < 8" "m + 8 * length dec = 5 * length cs"
    "be_val dec * 2 ^ m + take_bit m (uint u) = idx_val cs"
    by (simp_all add: idx_val_def be_val_def)
  moreover have "base32Decode upper cs = dec"
    by (simp add: base32Decode_alphabet_chars alphabet_chars_id [where upper = upper, OF assms] st)
  moreover have "0 \<le> take_bit m (uint u)" "take_bit m (uint u) < 2 ^ m"
    by simp_all
  ultimately show ?thesis by blast
qed

lemma base32Encode_alphabet: "set (base32Encode bs) \<subseteq> set BASE32_ALPHABET"
  using base32Encode_value [of bs] by blast

lemma base32_roundtrip:
  assumes "upper (base32Encode bs) = base32Encode bs"
  shows "base32Decode upper (base32Encode bs) = bs"
proof -
  let ?d = "base32Decode upper (base32Encode bs)"
  obtain p where p: "p < 5" and sub: "set (base32Encode bs) \<subseteq> set BASE32_ALPHABET"
    and len: "5 * length (base32Encode bs) = 8 * length bs + p"
    and val: "idx_val (base32Encode bs) = be_val bs * 2 ^ p"
    using base32Encode_value [of bs] by blast
  obtain m t where m: "m < 8" and t: "0 \<le> t" "t < 2 ^ m"
    and dlen: "m + 8 * length ?d = 5 * length (base32Encode bs)"
    and dval: "be_val ?d * 2 ^ m + t = idx_val (base32Encode bs)"
    using decode_alphabet_string [where upper = upper, OF sub assms] by blast
  have e: "m + 8 * length ?d = 8 * length bs + p"
    using len dlen by simp
  have "(m + 8 * length ?d) mod 8 = (8 * length bs + p) mod 8"
    by (simp only: e)
  then have mp: "m = p" using p m by simp
  then have l: "length ?d = length bs"
    using e by simp
  have d1: "(be_val ?d * 2 ^ p + t) div 2 ^ p = be_val ?d"
    using t mp by simp
  have d2: "(be_val bs * 2 ^ p) div 2 ^ p = be_val bs" by simp
  have "be_val ?d * 2 ^ p + t = be_val bs * 2 ^ p"
    using dval val mp by simp
  then have "be_val ?d = be_val bs"
    using d1 d2 by (simp only:)
  then show ?thesis
    using l by (intro be_val_inject)
qed

lemma base32Decode_length: "8 * length (base32Decode upper s) \<le> 5 * length (upper s)"
proof -
  have sub: "set (alphabet_chars upper s) \<subseteq> set BASE32_ALPHABET"
    by (auto simp add: alphabet_chars_def)
  obtain m u dec where st: "fold decode_step (alphabet_chars upper s) (0, 0, []) = (m, u, dec)"
    by (cases "fold decode_step (alphabet_chars upper s) (0, 0, [])")
  from decode_fold_inv [where bits = 0 and v = 0 and bytes = "[]", OF _ sub] st
  have "m + 8 * length dec = 5 * length (alphabet_chars upper s)"
    by simp
  moreover have "length (alphabet_chars upper s) \<le> length (upper s)"
    by (simp add: alphabet_chars_def)
  moreover have "base32Decode upper s = dec"
    by (simp add: base32Decode_alphabet_chars st)
  ultimately show ?thesis by simp
qed

text \<open>The sample of \<open>toUpperCase\<close> has the two properties of \<open>toUpperCase\<close> that the codec
  rests on.\<close>

lemma toUpperCase_sample_append:
  "toUpperCase_sample (s @ t) = toUpperCase_sample s @ toUpperCase_sample t"
  by (simp add: toUpperCase_sample_def)

lemma toUpperCase_sample_unit_alphabet:
  "\<forall>c \<in> set BASE32_ALPHABET \<union> {js_char CHR ''=''}. toUpperCase_sample_unit c = [c]"
  unfolding alphabet_units by (simp add: toUpperCase_sample_unit_def js_char_def)

lemma toUpperCase_sample_fixes:
  "set s \<subseteq> set BASE32_ALPHABET \<union> {js_char CHR ''=''} \<Longrightarrow> toUpperCase_sample s = s"
proof (induction s)
  case Nil
  then show ?case by (simp add: toUpperCase_sample_def)
next
  case (Cons c s)
  then have "toUpperCase_sample_unit c = [c]" and "toUpperCase_sample s = s"
    using toUpperCase_sample_unit_alphabet by auto
  then show ?case
    using toUpperCase_sample_append [of "[c]" s] by (simp add: toUpperCase_sample_def)
qed

lemma toUpperCase_sample_padding:
  "toUpperCase_sample (s @ replicate n (js_char CHR ''=''))
     = toUpperCase_sample s @ replicate n (js_char CHR ''='')"
proof -
  have "set (replicate n (js_char CHR ''='')) \<subseteq> set BASE32_ALPHABET \<union> {js_char CHR ''=''}"
    by (simp add: set_replicate_conv_if)
  then have "toUpperCase_sample (replicate n (js_char CHR ''='')) = replicate n (js_char CHR ''='')"
    by (rule toUpperCase_sample_fixes)
  then show ?thesis
    by (simp add: toUpperCase_sample_append)
qed

text \<open>
  Claim C2 (amended). Let \<open>toUpperCase\<close> leave every string of alphabet characters and
  \<open>=\<close> as it is, and act on a string followed by a run of \<open>=\<close> as on the string, the run
  kept; both hold of the runtime's function. Then decoding an encoding gives the bytes
  back, for a buffer of any length (so for lengths 0 to 64), also with any number of \<open>=\<close>
  appended. \<open>base32Decode\<close> depends on its input only through the alphabet characters of
  the upper-cased input: inputs with the same upper case decode alike, \<open>=\<close> at the end is
  ignored, and a character is skipped when its upper case holds no alphabet character
  (and upper-casing the input is upper-casing its parts). It is a total function with no
  error result; it returns at most 5/8 as many bytes as the upper-cased input has code
  units.
\<close>

theorem base32_codec:
  assumes fixes_alphabet:
      "\<And>t. set t \<subseteq> set BASE32_ALPHABET \<union> {js_char CHR ''=''} \<Longrightarrow> upper t = t"
    and keeps_padding:
      "\<And>t k. upper (t @ replicate k (js_char CHR ''='')) = upper t @ replicate k (js_char CHR ''='')"
  shows "base32Decode upper (base32Encode b) = b
   \<and> base32Decode upper (base32Encode b @ replicate n (js_char CHR ''='')) = b
   \<and> (alphabet_chars upper s = alphabet_chars upper s'
        \<longrightarrow> base32Decode upper s = base32Decode upper s')
   \<and> (upper s = upper s' \<longrightarrow> base32Decode upper s = base32Decode upper s')
   \<and> base32Decode upper (s @ replicate n (js_char CHR ''='')) = base32Decode upper s
   \<and> (set (upper [c]) \<inter> set BASE32_ALPHABET = {}
        \<and> upper (s1 @ c # s2) = upper s1 @ upper [c] @ upper s2
        \<and> upper (s1 @ s2) = upper s1 @ upper s2
        \<longrightarrow> base32Decode upper (s1 @ c # s2) = base32Decode upper (s1 @ s2))
   \<and> 8 * length (base32Decode upper s) \<le> 5 * length (upper s)"
proof -
  let ?e = "js_char CHR ''=''"
  have enc: "upper (base32Encode b) = base32Encode b"
    using base32Encode_alphabet [of b] by (intro fixes_alphabet) auto
  have pad: "base32Decode upper (x @ replicate n ?e) = base32Decode upper x" for x
    by (simp add: base32Decode_def keeps_padding strip_padding_replicate)
  have rt: "base32Decode upper (base32Encode b) = b"
    using enc by (rule base32_roundtrip)
  have dep: "alphabet_chars upper s = alphabet_chars upper s'
        \<longrightarrow> base32Decode upper s = base32Decode upper s'"
    by (simp add: base32Decode_alphabet_chars)
  have ci: "upper s = upper s' \<longrightarrow> base32Decode upper s = base32Decode upper s'"
    by (simp add: base32Decode_def)
  have skip: "set (upper [c]) \<inter> set BASE32_ALPHABET = {}
        \<and> upper (s1 @ c # s2) = upper s1 @ upper [c] @ upper s2
        \<and> upper (s1 @ s2) = upper s1 @ upper s2
        \<longrightarrow> base32Decode upper (s1 @ c # s2) = base32Decode upper (s1 @ s2)"
  proof (intro impI, elim conjE)
    assume d: "set (upper [c]) \<inter> set BASE32_ALPHABET = {}"
      and h1: "upper (s1 @ c # s2) = upper s1 @ upper [c] @ upper s2"
      and h2: "upper (s1 @ s2) = upper s1 @ upper s2"
    have "filter (\<lambda>x. x \<in> set BASE32_ALPHABET) (upper [c]) = []"
      using d by (auto simp add: filter_empty_conv)
    then have "alphabet_chars upper (s1 @ c # s2) = alphabet_chars upper (s1 @ s2)"
      by (simp add: alphabet_chars_def h1 h2)
    then show "base32Decode upper (s1 @ c # s2) = base32Decode upper (s1 @ s2)"
      by (simp add: base32Decode_alphabet_chars)
  qed
  show ?thesis
    using rt pad [of "base32Encode b"] pad [of s] dep ci skip base32Decode_length [of upper s]
    by (simp only: simp_thms)
qed

theorem base32_codec_witness:
  "base32Encode [0x31, 0x32, 0x33] = js ''GEZDG''
   \<and> base32Decode toUpperCase_sample (js ''GEZDG'') = [0x31, 0x32, 0x33]
   \<and> base32Decode toUpperCase_sample (js ''GEZDG==='') = [0x31, 0x32, 0x33]
   \<and> base32Decode toUpperCase_sample (js ''gezdg'') = base32Decode toUpperCase_sample (js ''GEZDG'')
   \<and> base32Decode toUpperCase_sample (js ''ge zdg'') = base32Decode toUpperCase_sample (js ''gezdg'')"
proof -
  have e: "base32Encode [0x31, 0x32, 0x33] = js ''GEZDG''"
    by (simp add: base32Encode_def encode_step_def encode_while.simps js_shl_def js_shr_def
        alphabet_at_def alphabet_units js_def js_char_def)
  have p: "js ''GEZDG==='' = js ''GEZDG'' @ replicate 3 (js_char CHR ''='')"
    by (simp add: js_def numeral_3_eq_3)
  have u: "toUpperCase_sample (js ''gezdg'') = toUpperCase_sample (js ''GEZDG'')"
    by (simp add: toUpperCase_sample_def toUpperCase_sample_unit_def js_def js_char_def)
  have g: "js ''ge zdg'' = js ''ge'' @ js_char CHR '' '' # js ''zdg''"
    and g': "js ''gezdg'' = js ''ge'' @ js ''zdg''"
    by (simp_all add: js_def)
  have c: "set (toUpperCase_sample [js_char CHR '' '']) \<inter> set BASE32_ALPHABET = {}"
    unfolding alphabet_units
    by (simp add: toUpperCase_sample_def toUpperCase_sample_unit_def js_char_def)
  have h: "toUpperCase_sample (js ''ge'' @ js_char CHR '' '' # js ''zdg'')
        = toUpperCase_sample (js ''ge'') @ toUpperCase_sample [js_char CHR '' '']
          @ toUpperCase_sample (js ''zdg'')"
    "toUpperCase_sample (js ''ge'' @ js ''zdg'')
        = toUpperCase_sample (js ''ge'') @ toUpperCase_sample (js ''zdg'')"
    by (simp_all add: toUpperCase_sample_def)
  from base32_codec [of toUpperCase_sample "[0x31, 0x32, 0x33]" 3 "js ''gezdg''" "js ''GEZDG''"
      "js_char CHR '' ''" "js ''ge''" "js ''zdg''",
      OF toUpperCase_sample_fixes toUpperCase_sample_padding]
    e p u g g' c h
  show ?thesis by simp
qed

text \<open>
  Claim C2 as worded fails for characters outside ASCII: \<open>toUpperCase\<close> runs first, and
  a character outside the alphabet whose upper case lies inside it is decoded, not
  skipped. Sharp s (U+00DF) is not in the alphabet; its upper case is \<open>SS\<close>, two alphabet
  characters, and the one-character input decodes to one byte, where the empty input
  decodes to none.
\<close>

theorem base32Decode_decodes_sharp_s:
  "(0xDF :: code_unit) \<notin> set BASE32_ALPHABET
   \<and> base32Decode toUpperCase_sample [0xDF] = [0x94]
   \<and> base32Decode toUpperCase_sample [] = []"
  unfolding alphabet_units [symmetric]
  by (simp add: base32Decode_def strip_padding_def decode_step_def toUpperCase_sample_def
      toUpperCase_sample_unit_def js_shl_def js_shr_def js_char_def alphabet_units)

section \<open>HMAC-SHA-1 on the sample key\<close>

lemma length_sha1: "length (sha1 msg) = 20"
  by (simp add: sha1_def state_bytes_def be_bytes_def split: prod.splits)

lemma length_hmac_sha1: "length (hmac_sha1 key msg) = 20"
  by (simp add: hmac_sha1_def Let_def length_sha1)

lemma replicate_numeral: "replicate (numeral k) x = x # replicate (pred_numeral k) x"
  by (simp add: numeral_eq_Suc)

lemma funpow_numeral: "(f ^^ numeral k) x = f ((f ^^ pred_numeral k) x)"
  by (simp add: numeral_eq_Suc)

text \<open>The two key blocks of the sample key: the key, filled with zeros to 64 bytes, XOR \<open>0x36\<close>
  and XOR \<open>0x5c\<close>.\<close>

lemma hmac_sha1_sample_key:
  "hmac_sha1 sample_key msg =
     map word_of_int (sha1 (
       [109, 110, 111, 104, 105, 106, 107, 100, 101, 108, 109, 110, 111, 104, 105, 106, 107,
        100, 101, 108, 92, 92, 92, 92, 92, 92, 92, 92, 92, 92, 92, 92, 92, 92, 92, 92, 92, 92,
        92, 92, 92, 92, 92, 92, 92, 92, 92, 92, 92, 92, 92, 92, 92, 92, 92, 92, 92, 92, 92, 92,
        92, 92, 92, 92]
       @ sha1 (
       [7, 4, 5, 2, 3, 0, 1, 14, 15, 6, 7, 4, 5, 2, 3, 0, 1, 14, 15, 6, 54, 54, 54, 54, 54, 54,
        54, 54, 54, 54, 54, 54, 54, 54, 54, 54, 54, 54, 54, 54, 54, 54, 54, 54, 54, 54, 54, 54,
        54, 54, 54, 54, 54, 54, 54, 54, 54, 54, 54, 54, 54, 54, 54, 54]
       @ map uint msg)))"
  by (simp add: hmac_sha1_def sample_key_def replicate_numeral)

lemma sha1_blocks_128:
  "length bs = 128 \<Longrightarrow> sha1_blocks h bs = sha1_block (sha1_block h (take 64 bs)) (drop 64 bs)"
  by (simp add: sha1_blocks.simps [of h bs] sha1_blocks.simps [of _ "drop 64 bs"]
      sha1_blocks.simps [of _ "[]"])

text \<open>The compression function on the blocks that the evaluations below hash.\<close>

lemma sha1_block_ipad:
  "sha1_block (1732584193, 4023233417, 2562383102, 271733878, 3285377520)
     [7, 4, 5, 2, 3, 0, 1, 14, 15, 6, 7, 4, 5, 2, 3, 0, 1, 14, 15, 6, 54, 54, 54, 54, 54, 54,
      54, 54, 54, 54, 54, 54, 54, 54, 54, 54, 54, 54, 54, 54, 54, 54, 54, 54, 54, 54, 54, 54, 54,
      54, 54, 54, 54, 54, 54, 54, 54, 54, 54, 54, 54, 54, 54, 54]
   = (3418885260, 4120502956, 3183003698, 3667247555, 4167577637)"
  by (simp add: sha1_block_def sha1_expand_def funpow_numeral rotl_def add32_def not32_def
      sha1_f_def sha1_k_def upt_rec [of 0] upt_rec [of "Suc _"] upt_rec [of "numeral _"]
      del: upt_Suc)

lemma sha1_block_opad:
  "sha1_block (1732584193, 4023233417, 2562383102, 271733878, 3285377520)
     [109, 110, 111, 104, 105, 106, 107, 100, 101, 108, 109, 110, 111, 104, 105, 106, 107, 100,
      101, 108, 92, 92, 92, 92, 92, 92, 92, 92, 92, 92, 92, 92, 92, 92, 92, 92, 92, 92, 92, 92,
      92, 92, 92, 92, 92, 92, 92, 92, 92, 92, 92, 92, 92, 92, 92, 92, 92, 92, 92, 92, 92, 92, 92,
      92]
   = (2562571725, 1491106814, 2908544490, 985678603, 4262488101)"
  by (simp add: sha1_block_def sha1_expand_def funpow_numeral rotl_def add32_def not32_def
      sha1_f_def sha1_k_def upt_rec [of 0] upt_rec [of "Suc _"] upt_rec [of "numeral _"]
      del: upt_Suc)

lemma sha1_block_inner_0:
  "sha1_block (3418885260, 4120502956, 3183003698, 3667247555, 4167577637)
     [0, 0, 0, 0, 0, 0, 0, 0, 128, 0, 0, 0, 0, 0, 0, 0, 0, 0, 0, 0, 0, 0, 0, 0, 0, 0, 0, 0, 0,
      0, 0, 0, 0, 0, 0, 0, 0, 0, 0, 0, 0, 0, 0, 0, 0, 0, 0, 0, 0, 0, 0, 0, 0, 0, 0, 0, 0, 0, 0,
      0, 0, 0, 2, 64]
   = (143776190, 163256007, 3362926067, 1759011664, 1719552414)"
  by (simp add: sha1_block_def sha1_expand_def funpow_numeral rotl_def add32_def not32_def
      sha1_f_def sha1_k_def upt_rec [of 0] upt_rec [of "Suc _"] upt_rec [of "numeral _"]
      del: upt_Suc)

lemma sha1_block_outer_0:
  "sha1_block (2562571725, 1491106814, 2908544490, 985678603, 4262488101)
     [8, 145, 217, 190, 9, 187, 22, 199, 200, 114, 45, 243, 104, 216, 99, 80, 102, 126, 73, 158,
      128, 0, 0, 0, 0, 0, 0, 0, 0, 0, 0, 0, 0, 0, 0, 0, 0, 0, 0, 0, 0, 0, 0, 0, 0, 0, 0, 0, 0, 0,
      0, 0, 0, 0, 0, 0, 0, 0, 0, 0, 0, 0, 2, 160]
   = (3432238872, 1351455891, 1281668701, 2343003775, 3083723952)"
  by (simp add: sha1_block_def sha1_expand_def funpow_numeral rotl_def add32_def not32_def
      sha1_f_def sha1_k_def upt_rec [of 0] upt_rec [of "Suc _"] upt_rec [of "numeral _"]
      del: upt_Suc)

lemma sha1_block_inner_57766331:
  "sha1_block (3418885260, 4120502956, 3183003698, 3667247555, 4167577637)
     [0, 0, 0, 0, 3, 113, 113, 187, 128, 0, 0, 0, 0, 0, 0, 0, 0, 0, 0, 0, 0, 0, 0, 0, 0, 0, 0,
      0, 0, 0, 0, 0, 0, 0, 0, 0, 0, 0, 0, 0, 0, 0, 0, 0, 0, 0, 0, 0, 0, 0, 0, 0, 0, 0, 0, 0, 0,
      0, 0, 0, 0, 0, 2, 64]
   = (3049384641, 3102877719, 2869814894, 2459206245, 2811563339)"
  by (simp add: sha1_block_def sha1_expand_def funpow_numeral rotl_def add32_def not32_def
      sha1_f_def sha1_k_def upt_rec [of 0] upt_rec [of "Suc _"] upt_rec [of "numeral _"]
      del: upt_Suc)

lemma sha1_block_outer_57766331:
  "sha1_block (2562571725, 1491106814, 2908544490, 985678603, 4262488101)
     [181, 193, 234, 193, 184, 242, 40, 23, 171, 13, 230, 110, 146, 148, 130, 101, 167, 149, 13,
      75, 128, 0, 0, 0, 0, 0, 0, 0, 0, 0, 0, 0, 0, 0, 0, 0, 0, 0, 0, 0, 0, 0, 0, 0, 0, 0, 0, 0,
      0, 0, 0, 0, 0, 0, 0, 0, 0, 0, 0, 0, 0, 0, 2, 160]
   = (620106341, 4008172890, 2983704346, 1004055630, 213554446)"
  by (simp add: sha1_block_def sha1_expand_def funpow_numeral rotl_def add32_def not32_def
      sha1_f_def sha1_k_def upt_rec [of 0] upt_rec [of "Suc _"] upt_rec [of "numeral _"]
      del: upt_Suc)

lemma sha1_block_inner_57766332:
  "sha1_block (3418885260, 4120502956, 3183003698, 3667247555, 4167577637)
     [0, 0, 0, 0, 3, 113, 113, 188, 128, 0, 0, 0, 0, 0, 0, 0, 0, 0, 0, 0, 0, 0, 0, 0, 0, 0, 0,
      0, 0, 0, 0, 0, 0, 0, 0, 0, 0, 0, 0, 0, 0, 0, 0, 0, 0, 0, 0, 0, 0, 0, 0, 0, 0, 0, 0, 0, 0,
      0, 0, 0, 0, 0, 2, 64]
   = (92840045, 2306281847, 498150236, 1288697020, 2431457306)"
  by (simp add: sha1_block_def sha1_expand_def funpow_numeral rotl_def add32_def not32_def
      sha1_f_def sha1_k_def upt_rec [of 0] upt_rec [of "Suc _"] upt_rec [of "numeral _"]
      del: upt_Suc)

lemma sha1_block_outer_57766332:
  "sha1_block (2562571725, 1491106814, 2908544490, 985678603, 4262488101)
     [5, 136, 160, 109, 137, 119, 17, 119, 29, 177, 43, 92, 76, 207, 244, 188, 144, 237, 24, 26,
      128, 0, 0, 0, 0, 0, 0, 0, 0, 0, 0, 0, 0, 0, 0, 0, 0, 0, 0, 0, 0, 0, 0, 0, 0, 0, 0, 0, 0, 0,
      0, 0, 0, 0, 0, 0, 0, 0, 0, 0, 0, 0, 2, 160]
   = (4189025784, 1885304715, 1698310987, 2753048488, 1487683207)"
  by (simp add: sha1_block_def sha1_expand_def funpow_numeral rotl_def add32_def not32_def
      sha1_f_def sha1_k_def upt_rec [of 0] upt_rec [of "Suc _"] upt_rec [of "numeral _"]
      del: upt_Suc)

lemma sha1_block_inner_57766333:
  "sha1_block (3418885260, 4120502956, 3183003698, 3667247555, 4167577637)
     [0, 0, 0, 0, 3, 113, 113, 189, 128, 0, 0, 0, 0, 0, 0, 0, 0, 0, 0, 0, 0, 0, 0, 0, 0, 0, 0,
      0, 0, 0, 0, 0, 0, 0, 0, 0, 0, 0, 0, 0, 0, 0, 0, 0, 0, 0, 0, 0, 0, 0, 0, 0, 0, 0, 0, 0, 0,
      0, 0, 0, 0, 0, 2, 64]
   = (2138382511, 1117234205, 447749044, 2482363909, 3949222332)"
  by (simp add: sha1_block_def sha1_expand_def funpow_numeral rotl_def add32_def not32_def
      sha1_f_def sha1_k_def upt_rec [of 0] upt_rec [of "Suc _"] upt_rec [of "numeral _"]
      del: upt_Suc)

lemma sha1_block_outer_57766333:
  "sha1_block (2562571725, 1491106814, 2908544490, 985678603, 4262488101)
     [127, 117, 32, 175, 66, 151, 164, 29, 26, 176, 27, 180, 147, 245, 222, 5, 235, 100, 89,
      188, 128, 0, 0, 0, 0, 0, 0, 0, 0, 0, 0, 0, 0, 0, 0, 0, 0, 0, 0, 0, 0, 0, 0, 0, 0, 0, 0, 0,
      0, 0, 0, 0, 0, 0, 0, 0, 0, 0, 0, 0, 0, 0, 2, 160]
   = (1079263712, 2452659868, 305908215, 1353461460, 2785151346)"
  by (simp add: sha1_block_def sha1_expand_def funpow_numeral rotl_def add32_def not32_def
      sha1_f_def sha1_k_def upt_rec [of 0] upt_rec [of "Suc _"] upt_rec [of "numeral _"]
      del: upt_Suc)

lemma sha1_block_inner_57766335:
  "sha1_block (3418885260, 4120502956, 3183003698, 3667247555, 4167577637)
     [0, 0, 0, 0, 3, 113, 113, 191, 128, 0, 0, 0, 0, 0, 0, 0, 0, 0, 0, 0, 0, 0, 0, 0, 0, 0, 0,
      0, 0, 0, 0, 0, 0, 0, 0, 0, 0, 0, 0, 0, 0, 0, 0, 0, 0, 0, 0, 0, 0, 0, 0, 0, 0, 0, 0, 0, 0,
      0, 0, 0, 0, 0, 2, 64]
   = (4099059153, 190284822, 1147808443, 146033469, 2936567900)"
  by (simp add: sha1_block_def sha1_expand_def funpow_numeral rotl_def add32_def not32_def
      sha1_f_def sha1_k_def upt_rec [of 0] upt_rec [of "Suc _"] upt_rec [of "numeral _"]
      del: upt_Suc)

lemma sha1_block_outer_57766335:
  "sha1_block (2562571725, 1491106814, 2908544490, 985678603, 4262488101)
     [244, 82, 173, 209, 11, 87, 132, 22, 68, 106, 42, 187, 8, 180, 75, 61, 175, 8, 120, 92,
      128, 0, 0, 0, 0, 0, 0, 0, 0, 0, 0, 0, 0, 0, 0, 0, 0, 0, 0, 0, 0, 0, 0, 0, 0, 0, 0, 0, 0, 0,
      0, 0, 0, 0, 0, 0, 0, 0, 0, 0, 0, 0, 2, 160]
   = (4002037232, 3777380820, 4087045876, 1448720698, 2661070807)"
  by (simp add: sha1_block_def sha1_expand_def funpow_numeral rotl_def add32_def not32_def
      sha1_f_def sha1_k_def upt_rec [of 0] upt_rec [of "Suc _"] upt_rec [of "numeral _"]
      del: upt_Suc)

lemma sha1_block_inner_57766336:
  "sha1_block (3418885260, 4120502956, 3183003698, 3667247555, 4167577637)
     [0, 0, 0, 0, 3, 113, 113, 192, 128, 0, 0, 0, 0, 0, 0, 0, 0, 0, 0, 0, 0, 0, 0, 0, 0, 0, 0,
      0, 0, 0, 0, 0, 0, 0, 0, 0, 0, 0, 0, 0, 0, 0, 0, 0, 0, 0, 0, 0, 0, 0, 0, 0, 0, 0, 0, 0, 0,
      0, 0, 0, 0, 0, 2, 64]
   = (3168805203, 725464452, 520299144, 4242190770, 1293038817)"
  by (simp add: sha1_block_def sha1_expand_def funpow_numeral rotl_def add32_def not32_def
      sha1_f_def sha1_k_def upt_rec [of 0] upt_rec [of "Suc _"] upt_rec [of "numeral _"]
      del: upt_Suc)

lemma sha1_block_outer_57766336:
  "sha1_block (2562571725, 1491106814, 2908544490, 985678603, 4262488101)
     [188, 224, 33, 83, 43, 61, 181, 132, 31, 3, 34, 136, 252, 218, 177, 178, 77, 18, 52, 225,
      128, 0, 0, 0, 0, 0, 0, 0, 0, 0, 0, 0, 0, 0, 0, 0, 0, 0, 0, 0, 0, 0, 0, 0, 0, 0, 0, 0, 0, 0,
      0, 0, 0, 0, 0, 0, 0, 0, 0, 0, 0, 0, 2, 160]
   = (2952589833, 3848179459, 1721439607, 3132398362, 3398072882)"
  by (simp add: sha1_block_def sha1_expand_def funpow_numeral rotl_def add32_def not32_def
      sha1_f_def sha1_k_def upt_rec [of 0] upt_rec [of "Suc _"] upt_rec [of "numeral _"]
      del: upt_Suc)

text \<open>HMAC-SHA-1 of six 8-byte counters under the sample key.\<close>

lemma hmac_sha1_counter_0:
  "hmac_sha1 sample_key [0, 0, 0, 0, 0, 0, 0, 0]
   = [204, 147, 207, 24, 80, 141, 148, 147, 76, 100, 182, 93, 139, 167, 102, 127, 183, 205, 228,
      176]"
proof -
  have p1: "sha1_pad
     [7, 4, 5, 2, 3, 0, 1, 14, 15, 6, 7, 4, 5, 2, 3, 0, 1, 14, 15, 6, 54, 54, 54, 54, 54, 54,
      54, 54, 54, 54, 54, 54, 54, 54, 54, 54, 54, 54, 54, 54, 54, 54, 54, 54, 54, 54, 54, 54, 54,
      54, 54, 54, 54, 54, 54, 54, 54, 54, 54, 54, 54, 54, 54, 54, 0, 0, 0, 0, 0, 0, 0, 0]
   = [7, 4, 5, 2, 3, 0, 1, 14, 15, 6, 7, 4, 5, 2, 3, 0, 1, 14, 15, 6, 54, 54, 54, 54, 54, 54,
      54, 54, 54, 54, 54, 54, 54, 54, 54, 54, 54, 54, 54, 54, 54, 54, 54, 54, 54, 54, 54, 54, 54,
      54, 54, 54, 54, 54, 54, 54, 54, 54, 54, 54, 54, 54, 54, 54, 0, 0, 0, 0, 0, 0, 0, 0, 128, 0,
      0, 0, 0, 0, 0, 0, 0, 0, 0, 0, 0, 0, 0, 0, 0, 0, 0, 0, 0, 0, 0, 0, 0, 0, 0, 0, 0, 0, 0, 0,
      0, 0, 0, 0, 0, 0, 0, 0, 0, 0, 0, 0, 0, 0, 0, 0, 0, 0, 0, 0, 0, 0, 2, 64]"
    by (simp add: sha1_pad_def replicate_numeral upt_rec [of 0] upt_rec [of "Suc _"] upt_rec [of "numeral _"] del: upt_Suc)
  have i: "sha1
     [7, 4, 5, 2, 3, 0, 1, 14, 15, 6, 7, 4, 5, 2, 3, 0, 1, 14, 15, 6, 54, 54, 54, 54, 54, 54,
      54, 54, 54, 54, 54, 54, 54, 54, 54, 54, 54, 54, 54, 54, 54, 54, 54, 54, 54, 54, 54, 54, 54,
      54, 54, 54, 54, 54, 54, 54, 54, 54, 54, 54, 54, 54, 54, 54, 0, 0, 0, 0, 0, 0, 0, 0]
   = [8, 145, 217, 190, 9, 187, 22, 199, 200, 114, 45, 243, 104, 216, 99, 80, 102, 126, 73,
      158]"
    unfolding sha1_def p1
    by (simp add: sha1_blocks_128 sha1_init_def sha1_block_ipad sha1_block_inner_0
        state_bytes_def be_bytes_def)
  have p2: "sha1_pad
     [109, 110, 111, 104, 105, 106, 107, 100, 101, 108, 109, 110, 111, 104, 105, 106, 107, 100,
      101, 108, 92, 92, 92, 92, 92, 92, 92, 92, 92, 92, 92, 92, 92, 92, 92, 92, 92, 92, 92, 92,
      92, 92, 92, 92, 92, 92, 92, 92, 92, 92, 92, 92, 92, 92, 92, 92, 92, 92, 92, 92, 92, 92, 92,
      92, 8, 145, 217, 190, 9, 187, 22, 199, 200, 114, 45, 243, 104, 216, 99, 80, 102, 126, 73,
      158]
   = [109, 110, 111, 104, 105, 106, 107, 100, 101, 108, 109, 110, 111, 104, 105, 106, 107, 100,
      101, 108, 92, 92, 92, 92, 92, 92, 92, 92, 92, 92, 92, 92, 92, 92, 92, 92, 92, 92, 92, 92,
      92, 92, 92, 92, 92, 92, 92, 92, 92, 92, 92, 92, 92, 92, 92, 92, 92, 92, 92, 92, 92, 92, 92,
      92, 8, 145, 217, 190, 9, 187, 22, 199, 200, 114, 45, 243, 104, 216, 99, 80, 102, 126, 73,
      158, 128, 0, 0, 0, 0, 0, 0, 0, 0, 0, 0, 0, 0, 0, 0, 0, 0, 0, 0, 0, 0, 0, 0, 0, 0, 0, 0, 0,
      0, 0, 0, 0, 0, 0, 0, 0, 0, 0, 0, 0, 0, 0, 2, 160]"
    by (simp add: sha1_pad_def replicate_numeral upt_rec [of 0] upt_rec [of "Suc _"] upt_rec [of "numeral _"] del: upt_Suc)
  have o: "sha1
     [109, 110, 111, 104, 105, 106, 107, 100, 101, 108, 109, 110, 111, 104, 105, 106, 107, 100,
      101, 108, 92, 92, 92, 92, 92, 92, 92, 92, 92, 92, 92, 92, 92, 92, 92, 92, 92, 92, 92, 92,
      92, 92, 92, 92, 92, 92, 92, 92, 92, 92, 92, 92, 92, 92, 92, 92, 92, 92, 92, 92, 92, 92, 92,
      92, 8, 145, 217, 190, 9, 187, 22, 199, 200, 114, 45, 243, 104, 216, 99, 80, 102, 126, 73,
      158]
   = [204, 147, 207, 24, 80, 141, 148, 147, 76, 100, 182, 93, 139, 167, 102, 127, 183, 205, 228,
      176]"
    unfolding sha1_def p2
    by (simp add: sha1_blocks_128 sha1_init_def sha1_block_opad sha1_block_outer_0
        state_bytes_def be_bytes_def)
  show ?thesis
    unfolding hmac_sha1_sample_key by (simp add: i o)
qed

lemma hmac_sha1_counter_57766331:
  "hmac_sha1 sample_key [0, 0, 0, 0, 3, 113, 113, 187]
   = [36, 246, 18, 101, 238, 231, 221, 90, 177, 215, 183, 26, 59, 216, 172, 78, 12, 186, 149,
      14]"
proof -
  have p1: "sha1_pad
     [7, 4, 5, 2, 3, 0, 1, 14, 15, 6, 7, 4, 5, 2, 3, 0, 1, 14, 15, 6, 54, 54, 54, 54, 54, 54,
      54, 54, 54, 54, 54, 54, 54, 54, 54, 54, 54, 54, 54, 54, 54, 54, 54, 54, 54, 54, 54, 54, 54,
      54, 54, 54, 54, 54, 54, 54, 54, 54, 54, 54, 54, 54, 54, 54, 0, 0, 0, 0, 3, 113, 113, 187]
   = [7, 4, 5, 2, 3, 0, 1, 14, 15, 6, 7, 4, 5, 2, 3, 0, 1, 14, 15, 6, 54, 54, 54, 54, 54, 54,
      54, 54, 54, 54, 54, 54, 54, 54, 54, 54, 54, 54, 54, 54, 54, 54, 54, 54, 54, 54, 54, 54, 54,
      54, 54, 54, 54, 54, 54, 54, 54, 54, 54, 54, 54, 54, 54, 54, 0, 0, 0, 0, 3, 113, 113, 187,
      128, 0, 0, 0, 0, 0, 0, 0, 0, 0, 0, 0, 0, 0, 0, 0, 0, 0, 0, 0, 0, 0, 0, 0, 0, 0, 0, 0, 0, 0,
      0, 0, 0, 0, 0, 0, 0, 0, 0, 0, 0, 0, 0, 0, 0, 0, 0, 0, 0, 0, 0, 0, 0, 0, 2, 64]"
    by (simp add: sha1_pad_def replicate_numeral upt_rec [of 0] upt_rec [of "Suc _"] upt_rec [of "numeral _"] del: upt_Suc)
  have i: "sha1
     [7, 4, 5, 2, 3, 0, 1, 14, 15, 6, 7, 4, 5, 2, 3, 0, 1, 14, 15, 6, 54, 54, 54, 54, 54, 54,
      54, 54, 54, 54, 54, 54, 54, 54, 54, 54, 54, 54, 54, 54, 54, 54, 54, 54, 54, 54, 54, 54, 54,
      54, 54, 54, 54, 54, 54, 54, 54, 54, 54, 54, 54, 54, 54, 54, 0, 0, 0, 0, 3, 113, 113, 187]
   = [181, 193, 234, 193, 184, 242, 40, 23, 171, 13, 230, 110, 146, 148, 130, 101, 167, 149, 13,
      75]"
    unfolding sha1_def p1
    by (simp add: sha1_blocks_128 sha1_init_def sha1_block_ipad sha1_block_inner_57766331
        state_bytes_def be_bytes_def)
  have p2: "sha1_pad
     [109, 110, 111, 104, 105, 106, 107, 100, 101, 108, 109, 110, 111, 104, 105, 106, 107, 100,
      101, 108, 92, 92, 92, 92, 92, 92, 92, 92, 92, 92, 92, 92, 92, 92, 92, 92, 92, 92, 92, 92,
      92, 92, 92, 92, 92, 92, 92, 92, 92, 92, 92, 92, 92, 92, 92, 92, 92, 92, 92, 92, 92, 92, 92,
      92, 181, 193, 234, 193, 184, 242, 40, 23, 171, 13, 230, 110, 146, 148, 130, 101, 167, 149,
      13, 75]
   = [109, 110, 111, 104, 105, 106, 107, 100, 101, 108, 109, 110, 111, 104, 105, 106, 107, 100,
      101, 108, 92, 92, 92, 92, 92, 92, 92, 92, 92, 92, 92, 92, 92, 92, 92, 92, 92, 92, 92, 92,
      92, 92, 92, 92, 92, 92, 92, 92, 92, 92, 92, 92, 92, 92, 92, 92, 92, 92, 92, 92, 92, 92, 92,
      92, 181, 193, 234, 193, 184, 242, 40, 23, 171, 13, 230, 110, 146, 148, 130, 101, 167, 149,
      13, 75, 128, 0, 0, 0, 0, 0, 0, 0, 0, 0, 0, 0, 0, 0, 0, 0, 0, 0, 0, 0, 0, 0, 0, 0, 0, 0, 0,
      0, 0, 0, 0, 0, 0, 0, 0, 0, 0, 0, 0, 0, 0, 0, 2, 160]"
    by (simp add: sha1_pad_def replicate_numeral upt_rec [of 0] upt_rec [of "Suc _"] upt_rec [of "numeral _"] del: upt_Suc)
  have o: "sha1
     [109, 110, 111, 104, 105, 106, 107, 100, 101, 108, 109, 110, 111, 104, 105, 106, 107, 100,
      101, 108, 92, 92, 92, 92, 92, 92, 92, 92, 92, 92, 92, 92, 92, 92, 92, 92, 92, 92, 92, 92,
      92, 92, 92, 92, 92, 92, 92, 92, 92, 92, 92, 92, 92, 92, 92, 92, 92, 92, 92, 92, 92, 92, 92,
      92, 181, 193, 234, 193, 184, 242, 40, 23, 171, 13, 230, 110, 146, 148, 130, 101, 167, 149,
      13, 75]
   = [36, 246, 18, 101, 238, 231, 221, 90, 177, 215, 183, 26, 59, 216, 172, 78, 12, 186, 149,
      14]"
    unfolding sha1_def p2
    by (simp add: sha1_blocks_128 sha1_init_def sha1_block_opad sha1_block_outer_57766331
        state_bytes_def be_bytes_def)
  show ?thesis
    unfolding hmac_sha1_sample_key by (simp add: i o)
qed

lemma hmac_sha1_counter_57766332:
  "hmac_sha1 sample_key [0, 0, 0, 0, 3, 113, 113, 188]
   = [249, 175, 117, 248, 112, 95, 119, 139, 101, 58, 43, 75, 164, 24, 47, 168, 88, 172, 62,
      135]"
proof -
  have p1: "sha1_pad
     [7, 4, 5, 2, 3, 0, 1, 14, 15, 6, 7, 4, 5, 2, 3, 0, 1, 14, 15, 6, 54, 54, 54, 54, 54, 54,
      54, 54, 54, 54, 54, 54, 54, 54, 54, 54, 54, 54, 54, 54, 54, 54, 54, 54, 54, 54, 54, 54, 54,
      54, 54, 54, 54, 54, 54, 54, 54, 54, 54, 54, 54, 54, 54, 54, 0, 0, 0, 0, 3, 113, 113, 188]
   = [7, 4, 5, 2, 3, 0, 1, 14, 15, 6, 7, 4, 5, 2, 3, 0, 1, 14, 15, 6, 54, 54, 54, 54, 54, 54,
      54, 54, 54, 54, 54, 54, 54, 54, 54, 54, 54, 54, 54, 54, 54, 54, 54, 54, 54, 54, 54, 54, 54,
      54, 54, 54, 54, 54, 54, 54, 54, 54, 54, 54, 54, 54, 54, 54, 0, 0, 0, 0, 3, 113, 113, 188,
      128, 0, 0, 0, 0, 0, 0, 0, 0, 0, 0, 0, 0, 0, 0, 0, 0, 0, 0, 0, 0, 0, 0, 0, 0, 0, 0, 0, 0, 0,
      0, 0, 0, 0, 0, 0, 0, 0, 0, 0, 0, 0, 0, 0, 0, 0, 0, 0, 0, 0, 0, 0, 0, 0, 2, 64]"
    by (simp add: sha1_pad_def replicate_numeral upt_rec [of 0] upt_rec [of "Suc _"] upt_rec [of "numeral _"] del: upt_Suc)
  have i: "sha1
     [7, 4, 5, 2, 3, 0, 1, 14, 15, 6, 7, 4, 5, 2, 3, 0, 1, 14, 15, 6, 54, 54, 54, 54, 54, 54,
      54, 54, 54, 54, 54, 54, 54, 54, 54, 54, 54, 54, 54, 54, 54, 54, 54, 54, 54, 54, 54, 54, 54,
      54, 54, 54, 54, 54, 54, 54, 54, 54, 54, 54, 54, 54, 54, 54, 0, 0, 0, 0, 3, 113, 113, 188]
   = [5, 136, 160, 109, 137, 119, 17, 119, 29, 177, 43, 92, 76, 207, 244, 188, 144, 237, 24,
      26]"
    unfolding sha1_def p1
    by (simp add: sha1_blocks_128 sha1_init_def sha1_block_ipad sha1_block_inner_57766332
        state_bytes_def be_bytes_def)
  have p2: "sha1_pad
     [109, 110, 111, 104, 105, 106, 107, 100, 101, 108, 109, 110, 111, 104, 105, 106, 107, 100,
      101, 108, 92, 92, 92, 92, 92, 92, 92, 92, 92, 92, 92, 92, 92, 92, 92, 92, 92, 92, 92, 92,
      92, 92, 92, 92, 92, 92, 92, 92, 92, 92, 92, 92, 92, 92, 92, 92, 92, 92, 92, 92, 92, 92, 92,
      92, 5, 136, 160, 109, 137, 119, 17, 119, 29, 177, 43, 92, 76, 207, 244, 188, 144, 237, 24,
      26]
   = [109, 110, 111, 104, 105, 106, 107, 100, 101, 108, 109, 110, 111, 104, 105, 106, 107, 100,
      101, 108, 92, 92, 92, 92, 92, 92, 92, 92, 92, 92, 92, 92, 92, 92, 92, 92, 92, 92, 92, 92,
      92, 92, 92, 92, 92, 92, 92, 92, 92, 92, 92, 92, 92, 92, 92, 92, 92, 92, 92, 92, 92, 92, 92,
      92, 5, 136, 160, 109, 137, 119, 17, 119, 29, 177, 43, 92, 76, 207, 244, 188, 144, 237, 24,
      26, 128, 0, 0, 0, 0, 0, 0, 0, 0, 0, 0, 0, 0, 0, 0, 0, 0, 0, 0, 0, 0, 0, 0, 0, 0, 0, 0, 0,
      0, 0, 0, 0, 0, 0, 0, 0, 0, 0, 0, 0, 0, 0, 2, 160]"
    by (simp add: sha1_pad_def replicate_numeral upt_rec [of 0] upt_rec [of "Suc _"] upt_rec [of "numeral _"] del: upt_Suc)
  have o: "sha1
     [109, 110, 111, 104, 105, 106, 107, 100, 101, 108, 109, 110, 111, 104, 105, 106, 107, 100,
      101, 108, 92, 92, 92, 92, 92, 92, 92, 92, 92, 92, 92, 92, 92, 92, 92, 92, 92, 92, 92, 92,
      92, 92, 92, 92, 92, 92, 92, 92, 92, 92, 92, 92, 92, 92, 92, 92, 92, 92, 92, 92, 92, 92, 92,
      92, 5, 136, 160, 109, 137, 119, 17, 119, 29, 177, 43, 92, 76, 207, 244, 188, 144, 237, 24,
      26]
   = [249, 175, 117, 248, 112, 95, 119, 139, 101, 58, 43, 75, 164, 24, 47, 168, 88, 172, 62,
      135]"
    unfolding sha1_def p2
    by (simp add: sha1_blocks_128 sha1_init_def sha1_block_opad sha1_block_outer_57766332
        state_bytes_def be_bytes_def)
  show ?thesis
    unfolding hmac_sha1_sample_key by (simp add: i o)
qed

lemma hmac_sha1_counter_57766333:
  "hmac_sha1 sample_key [0, 0, 0, 0, 3, 113, 113, 189]
   = [64, 84, 65, 224, 146, 48, 158, 156, 18, 59, 201, 247, 80, 172, 46, 212, 166, 2, 9, 114]"
proof -
  have p1: "sha1_pad
     [7, 4, 5, 2, 3, 0, 1, 14, 15, 6, 7, 4, 5, 2, 3, 0, 1, 14, 15, 6, 54, 54, 54, 54, 54, 54,
      54, 54, 54, 54, 54, 54, 54, 54, 54, 54, 54, 54, 54, 54, 54, 54, 54, 54, 54, 54, 54, 54, 54,
      54, 54, 54, 54, 54, 54, 54, 54, 54, 54, 54, 54, 54, 54, 54, 0, 0, 0, 0, 3, 113, 113, 189]
   = [7, 4, 5, 2, 3, 0, 1, 14, 15, 6, 7, 4, 5, 2, 3, 0, 1, 14, 15, 6, 54, 54, 54, 54, 54, 54,
      54, 54, 54, 54, 54, 54, 54, 54, 54, 54, 54, 54, 54, 54, 54, 54, 54, 54, 54, 54, 54, 54, 54,
      54, 54, 54, 54, 54, 54, 54, 54, 54, 54, 54, 54, 54, 54, 54, 0, 0, 0, 0, 3, 113, 113, 189,
      128, 0, 0, 0, 0, 0, 0, 0, 0, 0, 0, 0, 0, 0, 0, 0, 0, 0, 0, 0, 0, 0, 0, 0, 0, 0, 0, 0, 0, 0,
      0, 0, 0, 0, 0, 0, 0, 0, 0, 0, 0, 0, 0, 0, 0, 0, 0, 0, 0, 0, 0, 0, 0, 0, 2, 64]"
    by (simp add: sha1_pad_def replicate_numeral upt_rec [of 0] upt_rec [of "Suc _"] upt_rec [of "numeral _"] del: upt_Suc)
  have i: "sha1
     [7, 4, 5, 2, 3, 0, 1, 14, 15, 6, 7, 4, 5, 2, 3, 0, 1, 14, 15, 6, 54, 54, 54, 54, 54, 54,
      54, 54, 54, 54, 54, 54, 54, 54, 54, 54, 54, 54, 54, 54, 54, 54, 54, 54, 54, 54, 54, 54, 54,
      54, 54, 54, 54, 54, 54, 54, 54, 54, 54, 54, 54, 54, 54, 54, 0, 0, 0, 0, 3, 113, 113, 189]
   = [127, 117, 32, 175, 66, 151, 164, 29, 26, 176, 27, 180, 147, 245, 222, 5, 235, 100, 89,
      188]"
    unfolding sha1_def p1
    by (simp add: sha1_blocks_128 sha1_init_def sha1_block_ipad sha1_block_inner_57766333
        state_bytes_def be_bytes_def)
  have p2: "sha1_pad
     [109, 110, 111, 104, 105, 106, 107, 100, 101, 108, 109, 110, 111, 104, 105, 106, 107, 100,
      101, 108, 92, 92, 92, 92, 92, 92, 92, 92, 92, 92, 92, 92, 92, 92, 92, 92, 92, 92, 92, 92,
      92, 92, 92, 92, 92, 92, 92, 92, 92, 92, 92, 92, 92, 92, 92, 92, 92, 92, 92, 92, 92, 92, 92,
      92, 127, 117, 32, 175, 66, 151, 164, 29, 26, 176, 27, 180, 147, 245, 222, 5, 235, 100, 89,
      188]
   = [109, 110, 111, 104, 105, 106, 107, 100, 101, 108, 109, 110, 111, 104, 105, 106, 107, 100,
      101, 108, 92, 92, 92, 92, 92, 92, 92, 92, 92, 92, 92, 92, 92, 92, 92, 92, 92, 92, 92, 92,
      92, 92, 92, 92, 92, 92, 92, 92, 92, 92, 92, 92, 92, 92, 92, 92, 92, 92, 92, 92, 92, 92, 92,
      92, 127, 117, 32, 175, 66, 151, 164, 29, 26, 176, 27, 180, 147, 245, 222, 5, 235, 100, 89,
      188, 128, 0, 0, 0, 0, 0, 0, 0, 0, 0, 0, 0, 0, 0, 0, 0, 0, 0, 0, 0, 0, 0, 0, 0, 0, 0, 0, 0,
      0, 0, 0, 0, 0, 0, 0, 0, 0, 0, 0, 0, 0, 0, 2, 160]"
    by (simp add: sha1_pad_def replicate_numeral upt_rec [of 0] upt_rec [of "Suc _"] upt_rec [of "numeral _"] del: upt_Suc)
  have o: "sha1
     [109, 110, 111, 104, 105, 106, 107, 100, 101, 108, 109, 110, 111, 104, 105, 106, 107, 100,
      101, 108, 92, 92, 92, 92, 92, 92, 92, 92, 92, 92, 92, 92, 92, 92, 92, 92, 92, 92, 92, 92,
      92, 92, 92, 92, 92, 92, 92, 92, 92, 92, 92, 92, 92, 92, 92, 92, 92, 92, 92, 92, 92, 92, 92,
      92, 127, 117, 32, 175, 66, 151, 164, 29, 26, 176, 27, 180, 147, 245, 222, 5, 235, 100, 89,
      188]
   = [64, 84, 65, 224, 146, 48, 158, 156, 18, 59, 201, 247, 80, 172, 46, 212, 166, 2, 9, 114]"
    unfolding sha1_def p2
    by (simp add: sha1_blocks_128 sha1_init_def sha1_block_opad sha1_block_outer_57766333
        state_bytes_def be_bytes_def)
  show ?thesis
    unfolding hmac_sha1_sample_key by (simp add: i o)
qed

lemma hmac_sha1_counter_57766335:
  "hmac_sha1 sample_key [0, 0, 0, 0, 3, 113, 113, 191]
   = [238, 138, 61, 240, 225, 38, 65, 212, 243, 155, 94, 244, 86, 89, 185, 58, 158, 156, 183,
      215]"
proof -
  have p1: "sha1_pad
     [7, 4, 5, 2, 3, 0, 1, 14, 15, 6, 7, 4, 5, 2, 3, 0, 1, 14, 15, 6, 54, 54, 54, 54, 54, 54,
      54, 54, 54, 54, 54, 54, 54, 54, 54, 54, 54, 54, 54, 54, 54, 54, 54, 54, 54, 54, 54, 54, 54,
      54, 54, 54, 54, 54, 54, 54, 54, 54, 54, 54, 54, 54, 54, 54, 0, 0, 0, 0, 3, 113, 113, 191]
   = [7, 4, 5, 2, 3, 0, 1, 14, 15, 6, 7, 4, 5, 2, 3, 0, 1, 14, 15, 6, 54, 54, 54, 54, 54, 54,
      54, 54, 54, 54, 54, 54, 54, 54, 54, 54, 54, 54, 54, 54, 54, 54, 54, 54, 54, 54, 54, 54, 54,
      54, 54, 54, 54, 54, 54, 54, 54, 54, 54, 54, 54, 54, 54, 54, 0, 0, 0, 0, 3, 113, 113, 191,
      128, 0, 0, 0, 0, 0, 0, 0, 0, 0, 0, 0, 0, 0, 0, 0, 0, 0, 0, 0, 0, 0, 0, 0, 0, 0, 0, 0, 0, 0,
      0, 0, 0, 0, 0, 0, 0, 0, 0, 0, 0, 0, 0, 0, 0, 0, 0, 0, 0, 0, 0, 0, 0, 0, 2, 64]"
    by (simp add: sha1_pad_def replicate_numeral upt_rec [of 0] upt_rec [of "Suc _"] upt_rec [of "numeral _"] del: upt_Suc)
  have i: "sha1
     [7, 4, 5, 2, 3, 0, 1, 14, 15, 6, 7, 4, 5, 2, 3, 0, 1, 14, 15, 6, 54, 54, 54, 54, 54, 54,
      54, 54, 54, 54, 54, 54, 54, 54, 54, 54, 54, 54, 54, 54, 54, 54, 54, 54, 54, 54, 54, 54, 54,
      54, 54, 54, 54, 54, 54, 54, 54, 54, 54, 54, 54, 54, 54, 54, 0, 0, 0, 0, 3, 113, 113, 191]
   = [244, 82, 173, 209, 11, 87, 132, 22, 68, 106, 42, 187, 8, 180, 75, 61, 175, 8, 120, 92]"
    unfolding sha1_def p1
    by (simp add: sha1_blocks_128 sha1_init_def sha1_block_ipad sha1_block_inner_57766335
        state_bytes_def be_bytes_def)
  have p2: "sha1_pad
     [109, 110, 111, 104, 105, 106, 107, 100, 101, 108, 109, 110, 111, 104, 105, 106, 107, 100,
      101, 108, 92, 92, 92, 92, 92, 92, 92, 92, 92, 92, 92, 92, 92, 92, 92, 92, 92, 92, 92, 92,
      92, 92, 92, 92, 92, 92, 92, 92, 92, 92, 92, 92, 92, 92, 92, 92, 92, 92, 92, 92, 92, 92, 92,
      92, 244, 82, 173, 209, 11, 87, 132, 22, 68, 106, 42, 187, 8, 180, 75, 61, 175, 8, 120, 92]
   = [109, 110, 111, 104, 105, 106, 107, 100, 101, 108, 109, 110, 111, 104, 105, 106, 107, 100,
      101, 108, 92, 92, 92, 92, 92, 92, 92, 92, 92, 92, 92, 92, 92, 92, 92, 92, 92, 92, 92, 92,
      92, 92, 92, 92, 92, 92, 92, 92, 92, 92, 92, 92, 92, 92, 92, 92, 92, 92, 92, 92, 92, 92, 92,
      92, 244, 82, 173, 209, 11, 87, 132, 22, 68, 106, 42, 187, 8, 180, 75, 61, 175, 8, 120, 92,
      128, 0, 0, 0, 0, 0, 0, 0, 0, 0, 0, 0, 0, 0, 0, 0, 0, 0, 0, 0, 0, 0, 0, 0, 0, 0, 0, 0, 0, 0,
      0, 0, 0, 0, 0, 0, 0, 0, 0, 0, 0, 0, 2, 160]"
    by (simp add: sha1_pad_def replicate_numeral upt_rec [of 0] upt_rec [of "Suc _"] upt_rec [of "numeral _"] del: upt_Suc)
  have o: "sha1
     [109, 110, 111, 104, 105, 106, 107, 100, 101, 108, 109, 110, 111, 104, 105, 106, 107, 100,
      101, 108, 92, 92, 92, 92, 92, 92, 92, 92, 92, 92, 92, 92, 92, 92, 92, 92, 92, 92, 92, 92,
      92, 92, 92, 92, 92, 92, 92, 92, 92, 92, 92, 92, 92, 92, 92, 92, 92, 92, 92, 92, 92, 92, 92,
      92, 244, 82, 173, 209, 11, 87, 132, 22, 68, 106, 42, 187, 8, 180, 75, 61, 175, 8, 120, 92]
   = [238, 138, 61, 240, 225, 38, 65, 212, 243, 155, 94, 244, 86, 89, 185, 58, 158, 156, 183,
      215]"
    unfolding sha1_def p2
    by (simp add: sha1_blocks_128 sha1_init_def sha1_block_opad sha1_block_outer_57766335
        state_bytes_def be_bytes_def)
  show ?thesis
    unfolding hmac_sha1_sample_key by (simp add: i o)
qed

lemma hmac_sha1_counter_57766336:
  "hmac_sha1 sample_key [0, 0, 0, 0, 3, 113, 113, 192]
   = [175, 252, 242, 9, 229, 94, 143, 3, 102, 155, 21, 119, 186, 180, 155, 26, 202, 138, 122,
      50]"
proof -
  have p1: "sha1_pad
     [7, 4, 5, 2, 3, 0, 1, 14, 15, 6, 7, 4, 5, 2, 3, 0, 1, 14, 15, 6, 54, 54, 54, 54, 54, 54,
      54, 54, 54, 54, 54, 54, 54, 54, 54, 54, 54, 54, 54, 54, 54, 54, 54, 54, 54, 54, 54, 54, 54,
      54, 54, 54, 54, 54, 54, 54, 54, 54, 54, 54, 54, 54, 54, 54, 0, 0, 0, 0, 3, 113, 113, 192]
   = [7, 4, 5, 2, 3, 0, 1, 14, 15, 6, 7, 4, 5, 2, 3, 0, 1, 14, 15, 6, 54, 54, 54, 54, 54, 54,
      54, 54, 54, 54, 54, 54, 54, 54, 54, 54, 54, 54, 54, 54, 54, 54, 54, 54, 54, 54, 54, 54, 54,
      54, 54, 54, 54, 54, 54, 54, 54, 54, 54, 54, 54, 54, 54, 54, 0, 0, 0, 0, 3, 113, 113, 192,
      128, 0, 0, 0, 0, 0, 0, 0, 0, 0, 0, 0, 0, 0, 0, 0, 0, 0, 0, 0, 0, 0, 0, 0, 0, 0, 0, 0, 0, 0,
      0, 0, 0, 0, 0, 0, 0, 0, 0, 0, 0, 0, 0, 0, 0, 0, 0, 0, 0, 0, 0, 0, 0, 0, 2, 64]"
    by (simp add: sha1_pad_def replicate_numeral upt_rec [of 0] upt_rec [of "Suc _"] upt_rec [of "numeral _"] del: upt_Suc)
  have i: "sha1
     [7, 4, 5, 2, 3, 0, 1, 14, 15, 6, 7, 4, 5, 2, 3, 0, 1, 14, 15, 6, 54, 54, 54, 54, 54, 54,
      54, 54, 54, 54, 54, 54, 54, 54, 54, 54, 54, 54, 54, 54, 54, 54, 54, 54, 54, 54, 54, 54, 54,
      54, 54, 54, 54, 54, 54, 54, 54, 54, 54, 54, 54, 54, 54, 54, 0, 0, 0, 0, 3, 113, 113, 192]
   = [188, 224, 33, 83, 43, 61, 181, 132, 31, 3, 34, 136, 252, 218, 177, 178, 77, 18, 52, 225]"
    unfolding sha1_def p1
    by (simp add: sha1_blocks_128 sha1_init_def sha1_block_ipad sha1_block_inner_57766336
        state_bytes_def be_bytes_def)
  have p2: "sha1_pad
     [109, 110, 111, 104, 105, 106, 107, 100, 101, 108, 109, 110, 111, 104, 105, 106, 107, 100,
      101, 108, 92, 92, 92, 92, 92, 92, 92, 92, 92, 92, 92, 92, 92, 92, 92, 92, 92, 92, 92, 92,
      92, 92, 92, 92, 92, 92, 92, 92, 92, 92, 92, 92, 92, 92, 92, 92, 92, 92, 92, 92, 92, 92, 92,
      92, 188, 224, 33, 83, 43, 61, 181, 132, 31, 3, 34, 136, 252, 218, 177, 178, 77, 18, 52,
      225]
   = [109, 110, 111, 104, 105, 106, 107, 100, 101, 108, 109, 110, 111, 104, 105, 106, 107, 100,
      101, 108, 92, 92, 92, 92, 92, 92, 92, 92, 92, 92, 92, 92, 92, 92, 92, 92, 92, 92, 92, 92,
      92, 92, 92, 92, 92, 92, 92, 92, 92, 92, 92, 92, 92, 92, 92, 92, 92, 92, 92, 92, 92, 92, 92,
      92, 188, 224, 33, 83, 43, 61, 181, 132, 31, 3, 34, 136, 252, 218, 177, 178, 77, 18, 52,
      225, 128, 0, 0, 0, 0, 0, 0, 0, 0, 0, 0, 0, 0, 0, 0, 0, 0, 0, 0, 0, 0, 0, 0, 0, 0, 0, 0, 0,
      0, 0, 0, 0, 0, 0, 0, 0, 0, 0, 0, 0, 0, 0, 2, 160]"
    by (simp add: sha1_pad_def replicate_numeral upt_rec [of 0] upt_rec [of "Suc _"] upt_rec [of "numeral _"] del: upt_Suc)
  have o: "sha1
     [109, 110, 111, 104, 105, 106, 107, 100, 101, 108, 109, 110, 111, 104, 105, 106, 107, 100,
      101, 108, 92, 92, 92, 92, 92, 92, 92, 92, 92, 92, 92, 92, 92, 92, 92, 92, 92, 92, 92, 92,
      92, 92, 92, 92, 92, 92, 92, 92, 92, 92, 92, 92, 92, 92, 92, 92, 92, 92, 92, 92, 92, 92, 92,
      92, 188, 224, 33, 83, 43, 61, 181, 132, 31, 3, 34, 136, 252, 218, 177, 178, 77, 18, 52,
      225]
   = [175, 252, 242, 9, 229, 94, 143, 3, 102, 155, 21, 119, 186, 180, 155, 26, 202, 138, 122,
      50]"
    unfolding sha1_def p2
    by (simp add: sha1_blocks_128 sha1_init_def sha1_block_opad sha1_block_outer_57766336
        state_bytes_def be_bytes_def)
  show ?thesis
    unfolding hmac_sha1_sample_key by (simp add: i o)
qed


section \<open>TOTP engine\<close>

lemma counter_floor: "\<lfloor>real_of_int t / 1000 / real_of_int PERIOD\<rfloor> = t div 30000"
proof -
  have "real_of_int t / 1000 / real_of_int PERIOD = real_of_int t / real_of_int 30000"
    by (simp add: PERIOD_def)
  then show ?thesis
    by (simp only: floor_divide_of_int_eq)
qed



text \<open>Rendering: \<open>toString\<close> and \<open>padStart\<close> give the six decimal digits.\<close>

lemma padStart_digits_step:
  assumes "2 \<le> k"
  shows "padStart k CHR ''0'' (digits_of n)
     = padStart (k - 1) CHR ''0'' (digits_of (n div 10)) @ [''0123456789'' ! (n mod 10)]"
proof (cases "n < 10")
  case True
  then have "digits_of n = [''0123456789'' ! n]" and "digits_of (n div 10) = ''0''"
    by (simp_all add: digits_of.simps [of n] digits_of.simps [of 0])
  moreover have "replicate (k - 1) CHR ''0'' = replicate (k - 2) CHR ''0'' @ ''0''"
  proof -
    have "k - 1 = Suc (k - 2)" using assms by simp
    then show ?thesis by (simp only: replicate_Suc replicate_append_same)
  qed
  ultimately show ?thesis
    using True assms by (simp add: padStart_def)
next
  case False
  then have "digits_of n = digits_of (n div 10) @ [''0123456789'' ! (n mod 10)]"
    by (simp add: digits_of.simps [of n])
  moreover have "k - Suc (length (digits_of (n div 10))) = k - 1 - length (digits_of (n div 10))"
    by simp
  ultimately show ?thesis
    by (simp add: padStart_def)
qed

lemma padStart_six_digits:
  assumes "n < 10 ^ 6"
  shows "padStart 6 CHR ''0'' (digits_of n) = six_digits n"
proof -
  have lt: "n div 100000 < 10" using assms by simp
  have d: "n div 10 div 10 = n div 100" "n div 100 div 10 = n div 1000"
    "n div 1000 div 10 = n div 10000" "n div 10000 div 10 = n div 100000"
    by (simp_all add: div_mult2_eq [symmetric])
  have s5: "padStart 6 CHR ''0'' (digits_of n)
      = padStart 5 CHR ''0'' (digits_of (n div 10)) @ [''0123456789'' ! (n mod 10)]"
    using padStart_digits_step [of 6 n] by simp
  have s4: "padStart 5 CHR ''0'' (digits_of (n div 10))
      = padStart 4 CHR ''0'' (digits_of (n div 100)) @ [''0123456789'' ! (n div 10 mod 10)]"
    using padStart_digits_step [of 5 "n div 10"] by (simp add: d)
  have s3: "padStart 4 CHR ''0'' (digits_of (n div 100))
      = padStart 3 CHR ''0'' (digits_of (n div 1000)) @ [''0123456789'' ! (n div 100 mod 10)]"
    using padStart_digits_step [of 4 "n div 100"] by (simp add: d)
  have s2: "padStart 3 CHR ''0'' (digits_of (n div 1000))
      = padStart 2 CHR ''0'' (digits_of (n div 10000)) @ [''0123456789'' ! (n div 1000 mod 10)]"
    using padStart_digits_step [of 3 "n div 1000"] by (simp add: d)
  have s1: "padStart 2 CHR ''0'' (digits_of (n div 10000))
      = padStart 1 CHR ''0'' (digits_of (n div 100000)) @ [''0123456789'' ! (n div 10000 mod 10)]"
    using padStart_digits_step [of 2 "n div 10000"] by (simp add: d)
  have s0: "padStart 1 CHR ''0'' (digits_of (n div 100000))
      = [''0123456789'' ! (n div 100000 mod 10)]"
    using lt by (simp add: digits_of.simps [of "n div 100000"] padStart_def)
  show ?thesis
    unfolding s5 s4 s3 s2 s1 s0 by (simp add: six_digits_def)
qed


lemma padStart_js: "padStart n (js_char c) (js s) = js (padStart n c s)"
  by (simp add: padStart_def js_def)

lemma render_six_digits:
  assumes "0 \<le> v" and "v < 10 ^ 6"
  shows "padStart DIGITS (js_char CHR ''0'') (toString v) = js (six_digits (nat v))"
proof -
  have "nat v < 10 ^ 6" using assms by (simp add: nat_less_iff)
  then show ?thesis
    using assms(1) by (simp add: toString_def DIGITS_def padStart_js padStart_six_digits)
qed

text \<open>Dynamic truncation.\<close>

lemma take4_drop:
  assumes "n + 3 < length xs"
  shows "take 4 (drop n xs) = [xs ! n, xs ! (n + 1), xs ! (n + 2), xs ! (n + 3)]"
proof -
  have "drop n xs = xs ! n # drop (Suc n) xs"
    using assms by (simp add: Cons_nth_drop_Suc)
  moreover have "drop (Suc n) xs = xs ! (n + 1) # drop (Suc (Suc n)) xs"
    using assms by (simp add: Cons_nth_drop_Suc)
  moreover have "drop (Suc (Suc n)) xs = xs ! (n + 2) # drop (Suc (Suc (Suc n))) xs"
    using assms by (simp add: Cons_nth_drop_Suc)
  moreover have "drop (Suc (Suc (Suc n))) xs = xs ! (n + 3) # drop (Suc (Suc (Suc (Suc n)))) xs"
    using assms Cons_nth_drop_Suc [of "n + 3" xs] by (simp add: numeral_3_eq_3)
  ultimately show ?thesis
    by (simp add: numeral_Bit0 take_Suc_Cons)
qed

lemma mod_2_31:
  fixes a r :: int
  assumes "0 \<le> a" and "0 \<le> r" and "r < 2 ^ 24"
  shows "(a * 2 ^ 24 + r) mod 2 ^ 31 = (a mod 128) * 2 ^ 24 + r"
proof -
  let ?y = "(a mod 128) * 2 ^ 24 + r"
  have "a * 2 ^ 24 = (a div 128 * 128 + a mod 128) * 2 ^ 24"
    by (simp only: div_mult_mod_eq)
  also have "\<dots> = a div 128 * (128 * 2 ^ 24) + a mod 128 * 2 ^ 24"
    by (simp only: distrib_right mult.assoc)
  also have "(128 :: int) * 2 ^ 24 = 2 ^ 31"
    by simp
  finally have e: "a * 2 ^ 24 + r = ?y + a div 128 * 2 ^ 31"
    by simp
  have "a mod 128 \<le> 127" using pos_mod_bound [of 128 a] by simp
  then have "(a mod 128) * 2 ^ 24 \<le> 127 * 2 ^ 24" by simp
  then have y: "0 \<le> ?y" "?y < 2 ^ 31"
    using assms by simp_all
  have "(a * 2 ^ 24 + r) mod 2 ^ 31 = ?y mod 2 ^ 31"
    unfolding e by (rule mod_mult_self1)
  also have "\<dots> = ?y" using y by (rule mod_pos_pos_trivial)
  finally show ?thesis .
qed

lemma truncation_value:
  assumes len: "length hash = 20"
  shows "\<exists>offset. offset = unat (byte_and hash (length hash - 1) 0xf) \<and> offset + 3 < 20
     \<and> uint (push_bit 24 (byte_and hash offset 0x7f)
             OR push_bit 16 (byte_and hash (offset + 1) 0xff)
             OR push_bit 8 (byte_and hash (offset + 2) 0xff)
             OR byte_and hash (offset + 3) 0xff) = dynamic_truncation hash"
proof -
  let ?o = "unat (byte_and hash (length hash - 1) 0xf)"
  have ne: "hash \<noteq> []" using len by auto
  have lst: "hash ! 19 = last hash"
    using len ne by (simp add: last_conv_nth)
  have m4: "(0xf :: 32 word) = mask 4" by (simp add: mask_eq_exp_minus_1)
  have "uint (byte_and hash (length hash - 1) 0xf) = uint (last hash) mod 16"
    unfolding byte_and_def using len lst
    by (simp add: m4 uint_ucast_and_mask take_bit_eq_mod)
  then have o: "?o = nat (uint (last hash) mod 16)"
    by (simp add: unat_eq_nat_uint)
  have "uint (last hash) mod 16 < 16" by simp
  then have o16: "?o < 16" unfolding o by linarith
  then have o3: "?o + 3 < 20" by simp
  have ba: "byte_and hash (?o + k) m = ucast (hash ! (?o + k)) AND m" if "k \<le> 3" for k m
    using that o16 len by (simp add: byte_and_def)
  have ba0: "byte_and hash ?o m = ucast (hash ! ?o) AND m" for m
    using ba [of 0 m] by simp
  have bx: "0 \<le> uint x \<and> uint x < 256" for x :: "8 word"
    using uint_lt2p [of x] by simp
  let ?a = "hash ! ?o" and ?b = "hash ! (?o + 1)" and ?c = "hash ! (?o + 2)" and ?d = "hash ! (?o + 3)"
  have "uint (push_bit 24 (byte_and hash ?o 0x7f)
             OR push_bit 16 (byte_and hash (?o + 1) 0xff)
             OR push_bit 8 (byte_and hash (?o + 2) 0xff)
             OR byte_and hash (?o + 3) 0xff)
      = (uint ?a mod 128) * 2 ^ 24 + uint ?b * 2 ^ 16 + uint ?c * 2 ^ 8 + uint ?d"
    by (simp only: ba0 ba [of 1] ba [of 2] ba [of 3] trunc_uint)
  moreover have "dynamic_truncation hash
      = (uint ?a mod 128) * 2 ^ 24 + uint ?b * 2 ^ 16 + uint ?c * 2 ^ 8 + uint ?d"
  proof -
    have t: "take 4 (drop ?o hash) = [?a, ?b, ?c, ?d]"
      using o3 len by (intro take4_drop) simp
    have "be_val [?a, ?b, ?c, ?d] = uint ?a * 2 ^ 24 + (uint ?b * 2 ^ 16 + uint ?c * 2 ^ 8 + uint ?d)"
      by (simp add: be_val_def)
    moreover have "uint ?b * 2 ^ 16 + uint ?c * 2 ^ 8 + uint ?d < 2 ^ 24"
      using bx [of ?b] bx [of ?c] bx [of ?d] by simp
    moreover have "0 \<le> uint ?b * 2 ^ 16 + uint ?c * 2 ^ 8 + uint ?d"
      using bx [of ?b] bx [of ?c] bx [of ?d] by simp
    ultimately have "be_val [?a, ?b, ?c, ?d] mod 2 ^ 31
        = (uint ?a mod 128) * 2 ^ 24 + (uint ?b * 2 ^ 16 + uint ?c * 2 ^ 8 + uint ?d)"
      using mod_2_31 [of "uint ?a" "uint ?b * 2 ^ 16 + uint ?c * 2 ^ 8 + uint ?d"] bx [of ?a]
      by simp
    then show ?thesis
      unfolding dynamic_truncation_def Let_def o [symmetric] t by (simp only: add.assoc)
  qed
  ultimately show ?thesis using o3 by (intro exI [of _ ?o]) simp
qed

lemma decode_sample_secret: "base32Decode toUpperCase_sample sample_secret = sample_key"
  by (simp add: sample_secret_def sample_key_def base32Decode_def strip_padding_def decode_step_def
      toUpperCase_sample_def toUpperCase_sample_unit_def js_shl_def js_shr_def js_def js_char_def
      alphabet_units)

lemma js_rem_nonneg: "0 \<le> a \<Longrightarrow> 0 < b \<Longrightarrow> js_rem a b = a mod b"
  by (cases "a = 0") (simp_all add: js_rem_def)

lemma generateCodeForCounter_value:
  assumes w: "writeBigUInt64BE counter = Inr buffer"
    and len: "length (hmac (base32Decode upper secret) buffer) = 20"
  shows "generateCodeForCounter hmac upper secret counter
     = Inr (js (six_digits (nat (dynamic_truncation (hmac (base32Decode upper secret) buffer) mod 10 ^ 6))))"
proof -
  define hash where "hash = hmac (base32Decode upper secret) buffer"
  define offset where "offset = unat (byte_and hash (length hash - 1) 0xf)"
  define code where "code = push_bit 24 (byte_and hash offset 0x7f)
             OR push_bit 16 (byte_and hash (offset + 1) 0xff)
             OR push_bit 8 (byte_and hash (offset + 2) 0xff)
             OR byte_and hash (offset + 3) 0xff"
  have g: "generateCodeForCounter hmac upper secret counter
      = Inr (padStart DIGITS (js_char CHR ''0'') (toString (js_rem (sint code) (10 ^ DIGITS))))"
    by (simp add: generateCodeForCounter_def w Let_def hash_def code_def offset_def)
  have u: "uint code = dynamic_truncation hash"
    using truncation_value [of hash] len by (simp add: hash_def code_def offset_def)
  have r: "0 \<le> dynamic_truncation hash" "dynamic_truncation hash < 2 ^ 31"
    by (simp_all add: dynamic_truncation_def Let_def)
  have "sint code = signed_take_bit 31 (uint code)"
    by (simp add: sint_uint)
  also have "\<dots> = uint code"
    using r unfolding u by (intro signed_take_bit_int_eq_self) simp_all
  finally have s: "sint code = dynamic_truncation hash"
    using u by simp
  have m: "js_rem (sint code) (10 ^ DIGITS) = dynamic_truncation hash mod 10 ^ 6"
    unfolding s using r(1) by (simp add: js_rem_nonneg DIGITS_def)
  have "padStart DIGITS (js_char CHR ''0'') (toString (dynamic_truncation hash mod 10 ^ 6))
      = js (six_digits (nat (dynamic_truncation hash mod 10 ^ 6)))"
    by (rule render_six_digits) simp_all
  then show ?thesis
    unfolding g m hash_def by simp
qed

lemma generateCodeForCounter_in_range:
  assumes "0 \<le> counter" and "counter < 2 ^ 64"
  shows "\<exists>s. generateCodeForCounter hmac upper secret counter = Inr s"
  using assms by (simp add: generateCodeForCounter_def writeBigUInt64BE_def Let_def)

lemma verify_loop_window:
  assumes "0 \<le> counter + i" and "counter + tolerance < 2 ^ 64"
  shows "verify_loop hmac upper secret code counter tolerance i
     = Inr (\<exists>j \<in> {i..tolerance}. generateCodeForCounter hmac upper secret (counter + j) = Inr code)"
  using assms
proof (induction hmac upper secret code counter tolerance i rule: verify_loop.induct)
  case (1 hmac upper secret code counter tolerance i)
  show ?case
  proof (cases "i \<le> tolerance")
    case False
    then show ?thesis by (simp add: verify_loop.simps [of _ _ _ _ _ _ i])
  next
    case True
    then have "counter + i < 2 ^ 64" using "1.prems" by linarith
    then obtain s where s: "generateCodeForCounter hmac upper secret (counter + i) = Inr s"
      using generateCodeForCounter_in_range "1.prems"(1) by blast
    have split: "{i..tolerance} = insert i {i + 1..tolerance}"
      using True by auto
    show ?thesis
    proof (cases "s = code")
      case True
      then show ?thesis
        using s \<open>i \<le> tolerance\<close> by (subst verify_loop.simps) auto
    next
      case False
      have "verify_loop hmac upper secret code counter tolerance (i + 1)
          = Inr (\<exists>j \<in> {i + 1..tolerance}. generateCodeForCounter hmac upper secret (counter + j) = Inr code)"
        using "1.IH" [OF True s False] "1.prems" by simp
      then show ?thesis
        using s False \<open>i \<le> tolerance\<close> unfolding split
        by (subst verify_loop.simps) auto
    qed
  qed
qed

text \<open>The codes of six counters under the sample secret.\<close>

lemma writeBigUInt64BE_sample:
  "writeBigUInt64BE 0 = Inr [0, 0, 0, 0, 0, 0, 0, 0]"
  "writeBigUInt64BE 57766331 = Inr [0, 0, 0, 0, 3, 113, 113, 187]"
  "writeBigUInt64BE 57766332 = Inr [0, 0, 0, 0, 3, 113, 113, 188]"
  "writeBigUInt64BE 57766333 = Inr [0, 0, 0, 0, 3, 113, 113, 189]"
  "writeBigUInt64BE 57766335 = Inr [0, 0, 0, 0, 3, 113, 113, 191]"
  "writeBigUInt64BE 57766336 = Inr [0, 0, 0, 0, 3, 113, 113, 192]"
  by (simp_all add: writeBigUInt64BE_def upt_rec [of 0] upt_rec [of "Suc _"] del: upt_Suc)

lemma dynamic_truncation_sample:
  "dynamic_truncation (hmac_sha1 sample_key [0, 0, 0, 0, 0, 0, 0, 0]) = 1284755224"
  "dynamic_truncation (hmac_sha1 sample_key [0, 0, 0, 0, 3, 113, 113, 187]) = 743312570"
  "dynamic_truncation (hmac_sha1 sample_key [0, 0, 0, 0, 3, 113, 113, 188]) = 191183403"
  "dynamic_truncation (hmac_sha1 sample_key [0, 0, 0, 0, 3, 113, 113, 189]) = 1105236528"
  "dynamic_truncation (hmac_sha1 sample_key [0, 0, 0, 0, 3, 113, 113, 191]) = 1425251166"
  "dynamic_truncation (hmac_sha1 sample_key [0, 0, 0, 0, 3, 113, 113, 192]) = 1913251166"
  by (simp_all add: hmac_sha1_counter_0 hmac_sha1_counter_57766331 hmac_sha1_counter_57766332
      hmac_sha1_counter_57766333 hmac_sha1_counter_57766335 hmac_sha1_counter_57766336
      dynamic_truncation_def be_val_def Let_def)

lemma six_digits_sample:
  "six_digits 755224 = ''755224''" "six_digits 312570 = ''312570''"
  "six_digits 183403 = ''183403''" "six_digits 236528 = ''236528''"
  "six_digits 251166 = ''251166''"
  by (simp_all add: six_digits_def)

lemma generateCodeForCounter_sample:
  "generateCodeForCounter hmac_sha1 toUpperCase_sample sample_secret 0 = Inr (js ''755224'')"
  "generateCodeForCounter hmac_sha1 toUpperCase_sample sample_secret 57766331 = Inr (js ''312570'')"
  "generateCodeForCounter hmac_sha1 toUpperCase_sample sample_secret 57766332 = Inr (js ''183403'')"
  "generateCodeForCounter hmac_sha1 toUpperCase_sample sample_secret 57766333 = Inr (js ''236528'')"
  "generateCodeForCounter hmac_sha1 toUpperCase_sample sample_secret 57766335 = Inr (js ''251166'')"
  "generateCodeForCounter hmac_sha1 toUpperCase_sample sample_secret 57766336 = Inr (js ''251166'')"
  using generateCodeForCounter_value [OF writeBigUInt64BE_sample(1), of hmac_sha1 toUpperCase_sample sample_secret]
    generateCodeForCounter_value [OF writeBigUInt64BE_sample(2), of hmac_sha1 toUpperCase_sample sample_secret]
    generateCodeForCounter_value [OF writeBigUInt64BE_sample(3), of hmac_sha1 toUpperCase_sample sample_secret]
    generateCodeForCounter_value [OF writeBigUInt64BE_sample(4), of hmac_sha1 toUpperCase_sample sample_secret]
    generateCodeForCounter_value [OF writeBigUInt64BE_sample(5), of hmac_sha1 toUpperCase_sample sample_secret]
    generateCodeForCounter_value [OF writeBigUInt64BE_sample(6), of hmac_sha1 toUpperCase_sample sample_secret]
  by (simp_all add: length_hmac_sha1 decode_sample_secret dynamic_truncation_sample six_digits_sample)

lemma generateCode_counter:
  "generateCode hmac upper now secret time
     = generateCodeForCounter hmac upper secret (js_or time now div 30000)"
  unfolding generateCode_def Let_def counter_floor ..

lemma verifyCode_counter:
  "verifyCode hmac upper now secret code tolerance
     = verify_loop hmac upper secret code (now div 30000) tolerance (- tolerance)"
  unfolding verifyCode_def Let_def counter_floor ..




text \<open>Times and counters.\<close>

lemma counter_near:
  fixes now t :: int
  assumes "\<bar>now - t\<bar> < 30000"
  shows "- 1 \<le> t div 30000 - now div 30000 \<and> t div 30000 - now div 30000 \<le> 1"
  using assms by linarith

lemma counter_far_left:
  fixes now t k :: int
  assumes "t + 30000 * (k + 1) \<le> now"
  shows "t div 30000 < now div 30000 - k"
proof -
  have "(t + (k + 1) * 30000) div 30000 \<le> now div 30000"
    using assms by (intro zdiv_mono1) (simp_all add: mult.commute)
  moreover have "(t + (k + 1) * 30000) div 30000 = t div 30000 + (k + 1)"
    by simp
  ultimately show ?thesis by linarith
qed

lemma counter_far:
  fixes now t k :: int
  assumes "30000 * (k + 1) \<le> \<bar>now - t\<bar>"
  shows "t div 30000 < now div 30000 - k \<or> now div 30000 + k < t div 30000"
proof (cases "t \<le> now")
  case True
  then have "t + 30000 * (k + 1) \<le> now" using assms by linarith
  then show ?thesis using counter_far_left by blast
next
  case False
  then have "now + 30000 * (k + 1) \<le> t" using assms by linarith
  then have "now div 30000 < t div 30000 - k" by (rule counter_far_left)
  then show ?thesis by linarith
qed

text \<open>
  Claim C3 (amended). Let the counter of the verification time be at least \<open>tolerance\<close>
  (so that no counter of the window is negative). \<open>verifyCode\<close> is true exactly when the
  submitted string equals the code of one of the counters \<open>now - tolerance\<close> to
  \<open>now + tolerance\<close>. So the code generated for a time \<open>t\<close> is accepted at every
  verification time less than 30 seconds from \<open>t\<close>, on either side of a period
  boundary. When the verification time is \<open>tolerance + 1\<close> periods or more from \<open>t\<close> (61
  seconds for tolerance 1) the counter of \<open>t\<close> is outside the window; the code is then
  rejected unless it equals the code of a counter of the window.
\<close>

theorem verifyCode_window:
  assumes lo: "tolerance \<le> now div 30000" and hi: "now div 30000 + tolerance < 2 ^ 64"
  shows "verifyCode hmac upper now secret code tolerance
           = Inr (\<exists>j \<in> {- tolerance..tolerance}.
                    generateCodeForCounter hmac upper secret (now div 30000 + j) = Inr code)
       \<and> (1 \<le> tolerance \<and> t \<noteq> 0 \<and> \<bar>now - t\<bar> < 30000
            \<and> generateCode hmac upper clock secret (Some t) = Inr code
            \<longrightarrow> verifyCode hmac upper now secret code tolerance = Inr True)
       \<and> (0 \<le> tolerance \<and> 30000 * (tolerance + 1) \<le> \<bar>now - t\<bar>
            \<longrightarrow> t div 30000 \<notin> {now div 30000 - tolerance..now div 30000 + tolerance})"
proof -
  have W: "verifyCode hmac upper now secret code tolerance
           = Inr (\<exists>j \<in> {- tolerance..tolerance}.
                    generateCodeForCounter hmac upper secret (now div 30000 + j) = Inr code)"
    unfolding verifyCode_counter
    using lo hi by (intro verify_loop_window) simp_all
  have T: "1 \<le> tolerance \<and> t \<noteq> 0 \<and> \<bar>now - t\<bar> < 30000
            \<and> generateCode hmac upper clock secret (Some t) = Inr code
            \<longrightarrow> verifyCode hmac upper now secret code tolerance = Inr True"
  proof (intro impI, elim conjE)
    assume tol: "1 \<le> tolerance" and t0: "t \<noteq> 0" and near: "\<bar>now - t\<bar> < 30000"
      and gen: "generateCode hmac upper clock secret (Some t) = Inr code"
    have g: "generateCodeForCounter hmac upper secret (t div 30000) = Inr code"
      using gen t0 by (simp add: generateCode_counter js_or_def)
    let ?j = "t div 30000 - now div 30000"
    have "?j \<in> {- tolerance..tolerance}"
      using counter_near [OF near] tol by simp
    moreover have "generateCodeForCounter hmac upper secret (now div 30000 + ?j) = Inr code"
      using g by simp
    ultimately show "verifyCode hmac upper now secret code tolerance = Inr True"
      unfolding W by blast
  qed
  have F: "0 \<le> tolerance \<and> 30000 * (tolerance + 1) \<le> \<bar>now - t\<bar>
            \<longrightarrow> t div 30000 \<notin> {now div 30000 - tolerance..now div 30000 + tolerance}"
    using counter_far [of tolerance now t] by auto
  from W T F show ?thesis by blast
qed

theorem verifyCode_window_witness:
  "generateCode hmac_sha1 toUpperCase_sample 0 sample_secret (Some 1732990050000) = Inr (js ''251166'')
   \<and> verifyCode hmac_sha1 toUpperCase_sample 1732990050000 sample_secret (js ''251166'') 1 = Inr True
   \<and> verifyCode hmac_sha1 toUpperCase_sample 1732990021000 sample_secret (js ''251166'') 1 = Inr True
   \<and> verifyCode hmac_sha1 toUpperCase_sample 1732990079000 sample_secret (js ''251166'') 1 = Inr True
   \<and> verifyCode hmac_sha1 toUpperCase_sample 1732989989000 sample_secret (js ''251166'') 1 = Inr False"
proof -
  have g: "generateCode hmac_sha1 toUpperCase_sample 0 sample_secret (Some 1732990050000) = Inr (js ''251166'')"
    by (simp add: generateCode_counter js_or_def generateCodeForCounter_sample)
  note window = verifyCode_window [where hmac = hmac_sha1 and upper = toUpperCase_sample
      and secret = sample_secret and code = "js ''251166''" and tolerance = 1
      and t = 1732990050000 and clock = 0]
  have a: "verifyCode hmac_sha1 toUpperCase_sample 1732990050000 sample_secret (js ''251166'') 1 = Inr True"
    using window [where now = 1732990050000, THEN conjunct2, THEN conjunct1] g by simp
  have b: "verifyCode hmac_sha1 toUpperCase_sample 1732990021000 sample_secret (js ''251166'') 1 = Inr True"
    using window [where now = 1732990021000, THEN conjunct2, THEN conjunct1] g by simp
  have c: "verifyCode hmac_sha1 toUpperCase_sample 1732990079000 sample_secret (js ''251166'') 1 = Inr True"
    using window [where now = 1732990079000, THEN conjunct2, THEN conjunct1] g by simp
  have w: "{- 1..1 :: int} = {- 1, 0, 1}" by auto
  have n: "js ''312570'' \<noteq> js ''251166''" "js ''183403'' \<noteq> js ''251166''" "js ''236528'' \<noteq> js ''251166''"
    by (simp_all add: js_def js_char_def)
  have d: "verifyCode hmac_sha1 toUpperCase_sample 1732989989000 sample_secret (js ''251166'') 1 = Inr False"
    using window [where now = 1732989989000, THEN conjunct1] n
    by (simp add: w generateCodeForCounter_sample)
  from g a b c d show ?thesis by simp
qed

text \<open>
  Claim C3 as worded fails in its last part: codes of different counters can coincide.
  Under the sample secret the counters 57766335 and 57766336 both have the code
  \<open>251166\<close>; the code generated at 1732990050000 ms (counter 57766335) is accepted 61
  seconds later, when the window is 57766336 to 57766338.
\<close>

theorem verifyCode_true_after_61_seconds:
  "generateCode hmac_sha1 toUpperCase_sample 0 sample_secret (Some 1732990050000) = Inr (js ''251166'')
   \<and> verifyCode hmac_sha1 toUpperCase_sample (1732990050000 + 61000) sample_secret (js ''251166'') 1
       = Inr True"
  by (simp add: generateCode_counter js_or_def verifyCode_counter verify_loop.simps
      generateCodeForCounter_sample)

text \<open>
  Claim C10 (amended). The time argument of \<open>generateCode\<close> is in milliseconds: for every
  time other than 0 the counter is the time divided by 30000, rounded down. For the time 0,
  and when no time is given, the counter is that of the clock. The code of the epoch's
  period, counter 0, is what every time from 1 to 29999 gives.
\<close>

theorem generateCode_time_parameter:
  "(time \<noteq> 0 \<longrightarrow>
      generateCode hmac upper now secret (Some time)
        = generateCodeForCounter hmac upper secret (time div 30000))
   \<and> generateCode hmac upper now secret (Some 0)
        = generateCodeForCounter hmac upper secret (now div 30000)
   \<and> generateCode hmac upper now secret None
        = generateCodeForCounter hmac upper secret (now div 30000)
   \<and> (0 < time \<and> time < 30000 \<longrightarrow>
        generateCode hmac upper now secret (Some time) = generateCodeForCounter hmac upper secret 0)"
  by (simp add: generateCode_counter js_or_def)

theorem generateCode_time_parameter_witness:
  "generateCode hmac_sha1 toUpperCase_sample 1000 sample_secret (Some 1732990050000) = Inr (js ''251166'')
   \<and> generateCode hmac_sha1 toUpperCase_sample 1732990050000 sample_secret (Some 0) = Inr (js ''251166'')
   \<and> generateCode hmac_sha1 toUpperCase_sample 1732990050000 sample_secret None = Inr (js ''251166'')
   \<and> generateCode hmac_sha1 toUpperCase_sample 1732990050000 sample_secret (Some 29999) = Inr (js ''755224'')"
proof -
  note at_time = generateCode_time_parameter [where hmac = hmac_sha1 and upper = toUpperCase_sample
      and secret = sample_secret]
  have "generateCode hmac_sha1 toUpperCase_sample 1000 sample_secret (Some 1732990050000) = Inr (js ''251166'')"
    using at_time [where time = 1732990050000 and now = 1000, THEN conjunct1]
    by (simp add: generateCodeForCounter_sample)
  moreover have "generateCode hmac_sha1 toUpperCase_sample 1732990050000 sample_secret (Some 0) = Inr (js ''251166'')"
    using at_time [where time = 1 and now = 1732990050000, THEN conjunct2, THEN conjunct1]
    by (simp add: generateCodeForCounter_sample)
  moreover have "generateCode hmac_sha1 toUpperCase_sample 1732990050000 sample_secret None = Inr (js ''251166'')"
    using at_time [where time = 1 and now = 1732990050000, THEN conjunct2, THEN conjunct2, THEN conjunct1]
    by (simp add: generateCodeForCounter_sample)
  moreover have "generateCode hmac_sha1 toUpperCase_sample 1732990050000 sample_secret (Some 29999) = Inr (js ''755224'')"
    using at_time [where time = 29999 and now = 1732990050000, THEN conjunct2, THEN conjunct2, THEN conjunct2]
    by (simp add: generateCodeForCounter_sample)
  ultimately show ?thesis by simp
qed

text \<open>
  Claim C10 as worded fails in its conclusion: the code of the epoch (counter 0, \<open>755224\<close>
  under the sample secret) is returned by \<open>generateCode\<close> for the time 1, whatever the
  clock says.
\<close>

theorem generateCode_reaches_epoch_code:
  "generateCodeForCounter hmac_sha1 toUpperCase_sample sample_secret 0 = Inr (js ''755224'')
   \<and> generateCode hmac_sha1 toUpperCase_sample 1732990050000 sample_secret (Some 1) = Inr (js ''755224'')"
  by (simp add: generateCode_counter js_or_def generateCodeForCounter_sample)

end
